theory Spec2Isabelle
  imports Complex_Main "HOL-Library.Log_Nat"
begin

section \<open>JavaScript values read from and written to local storage\<close>

text \<open>
  The values that \<open>JSON.parse\<close> can return. Numbers are restricted to integers: the
  application itself only ever writes integers (timestamps, MIDI numbers, octaves).
  An object is its list of own properties in insertion order.
\<close>

datatype json =
    JNull
  | JBool bool
  | JNum int
  | JStr string
  | JArr "json list"
  | JObj "(string \<times> json) list"

text \<open>
  A JavaScript value that may be \<open>undefined\<close> is a \<open>json option\<close>, with \<open>None\<close> for
  \<open>undefined\<close>. \<open>truthy\<close> is the conversion to a boolean that \<open>if (v)\<close>, \<open>!!v\<close> and
  \<open>v || w\<close> apply.
\<close>

fun truthy :: "json option \<Rightarrow> bool" where
  "truthy None = False"
| "truthy (Some JNull) = False"
| "truthy (Some (JBool b)) = b"
| "truthy (Some (JNum n)) = (n \<noteq> 0)"
| "truthy (Some (JStr s)) = (s \<noteq> [])"
| "truthy (Some (JArr xs)) = True"
| "truthy (Some (JObj kvs)) = True"

datatype error = TypeError

text \<open>
  \<open>item.name\<close> for one of the property names the program reads (\<open>pitchClass\<close>,
  \<open>letter\<close>, \<open>correct\<close>): reading a property of \<open>null\<close> throws, a primitive or an array
  has no such property, an object yields its own property.
\<close>

fun get_prop :: "json \<Rightarrow> string \<Rightarrow> error + json option" where
  "get_prop JNull k = Inl TypeError"
| "get_prop (JObj kvs) k = Inr (map_of kvs k)"
| "get_prop v k = Inr None"

text \<open>\<open>a ?? b\<close>: the right operand is used when the left one is \<open>null\<close> or \<open>undefined\<close>.\<close>

fun nullish_coalesce :: "json option \<Rightarrow> json option \<Rightarrow> json option" where
  "nullish_coalesce None b = b"
| "nullish_coalesce (Some JNull) b = b"
| "nullish_coalesce (Some v) b = Some v"

text \<open>\<open>{ ...obj, [k]: v }\<close>: an existing key keeps its position, a new key is appended.\<close>

fun set_prop :: "string \<Rightarrow> json \<Rightarrow> (string \<times> json) list \<Rightarrow> (string \<times> json) list" where
  "set_prop k v [] = [(k, v)]"
| "set_prop k v (p # ps) = (if fst p = k then (k, v) # ps else p # set_prop k v ps)"

subsection \<open>Conversion of a value to a property key\<close>

fun digit_char :: "nat \<Rightarrow> char" where
  "digit_char n = char_of (48 + n)"

fun nat_digits :: "nat \<Rightarrow> string" where
  "nat_digits n = (if n < 10 then [digit_char n] else nat_digits (n div 10) @ [digit_char (n mod 10)])"

definition int_string :: "int \<Rightarrow> string" where
  "int_string i = (if i < 0 then CHR ''-'' # nat_digits (nat (- i)) else nat_digits (nat i))"

fun join_comma :: "string list \<Rightarrow> string" where
  "join_comma [] = []"
| "join_comma [s] = s"
| "join_comma (s # t # ss) = s @ '','' @ join_comma (t # ss)"

text \<open>
  \<open>String(v)\<close>, which \<open>obj[v]\<close> applies to a key: an array is the comma-joined strings of
  its elements, where \<open>null\<close> elements give the empty string.
\<close>

fun js_string :: "json \<Rightarrow> string" where
  "js_string JNull = ''null''"
| "js_string (JBool b) = (if b then ''true'' else ''false'')"
| "js_string (JNum n) = int_string n"
| "js_string (JStr s) = s"
| "js_string (JArr xs) = join_comma (map (\<lambda>x. if x = JNull then [] else js_string x) xs)"
| "js_string (JObj kvs) = ''[object Object]''"

definition property_key :: "json option \<Rightarrow> string" where
  "property_key v = (case v of None \<Rightarrow> ''undefined'' | Some x \<Rightarrow> js_string x)"

section \<open>Local storage\<close>

text \<open>
  A stored string is represented by what \<open>JSON.parse\<close> makes of it: the empty string,
  a non-empty string that \<open>JSON.parse\<close> rejects with an exception, or a string that it
  parses to a value. \<open>JSON.stringify\<close> of a value of type \<^typ>\<open>json\<close> is a string of the
  last kind, which parses back to the same value.
\<close>

datatype raw = Empty | Malformed | Wellformed json

type_synonym storage = "string \<Rightarrow> raw option"

definition getItem :: "storage \<Rightarrow> string \<Rightarrow> raw option" where
  "getItem ls k = ls k"

definition setItem :: "storage \<Rightarrow> string \<Rightarrow> raw \<Rightarrow> storage" where
  "setItem ls k v = ls(k \<mapsto> v)"

fun raw_truthy :: "raw option \<Rightarrow> bool" where
  "raw_truthy None = False"
| "raw_truthy (Some Empty) = False"
| "raw_truthy (Some r) = True"

text \<open>\<open>JSON.parse\<close>: \<open>None\<close> is the exception thrown on a string that is not JSON.\<close>

fun JSON_parse :: "raw \<Rightarrow> json option" where
  "JSON_parse Empty = None"
| "JSON_parse Malformed = None"
| "JSON_parse (Wellformed v) = Some v"

definition JSON_stringify :: "json \<Rightarrow> raw" where
  "JSON_stringify v = Wellformed v"

definition LS_selected :: string where
  "LS_selected = ''pt_selectedNotes''"

definition LS_history :: string where
  "LS_history = ''pt_history''"

definition default_selected :: json where
  "default_selected = JObj [(''C'', JBool True), (''E'', JBool True), (''G#'', JBool True)]"

definition loadSelected :: "storage \<Rightarrow> json" where
  "loadSelected ls =
     (let r = getItem ls LS_selected in
      if raw_truthy r then
        (case JSON_parse (the r) of Some v \<Rightarrow> v | None \<Rightarrow> default_selected)
      else default_selected)"

definition saveSelected :: "storage \<Rightarrow> json \<Rightarrow> storage" where
  "saveSelected ls sel = setItem ls LS_selected (JSON_stringify sel)"

definition loadHistory :: "storage \<Rightarrow> json" where
  "loadHistory ls =
     (let r = getItem ls LS_history in
      if \<not> raw_truthy r then JArr []
      else (case JSON_parse (the r) of
              Some v \<Rightarrow> (if truthy (Some v) then v else JArr [])
            | None \<Rightarrow> JArr []))"

definition saveHistory :: "storage \<Rightarrow> json \<Rightarrow> storage" where
  "saveHistory ls arr = setItem ls LS_history (JSON_stringify arr)"

section \<open>MIDI and note helpers\<close>

definition PITCH_CLASSES :: "string list" where
  "PITCH_CLASSES = [''C'', ''C#'', ''D'', ''D#'', ''E'', ''F'', ''F#'', ''G'', ''G#'', ''A'', ''A#'', ''B'']"

definition PITCH_CLASS_TO_PC :: "(string \<times> int) list" where
  "PITCH_CLASS_TO_PC =
     [(''C'', 0), (''C#'', 1), (''D'', 2), (''D#'', 3), (''E'', 4), (''F'', 5),
      (''F#'', 6), (''G'', 7), (''G#'', 8), (''A'', 9), (''A#'', 10), (''B'', 11)]"

definition MIN_MIDI :: int where
  "MIN_MIDI = 45"

definition MAX_MIDI :: int where
  "MAX_MIDI = 79"

text \<open>
  \<open>None\<close> is \<open>NaN\<close>: the table has no entry for the label, and the sum with \<open>undefined\<close>
  is not a number.
\<close>

definition midiFromPitchClass :: "string \<Rightarrow> int \<Rightarrow> int option" where
  "midiFromPitchClass pitchClassLabel oct =
     (case map_of PITCH_CLASS_TO_PC pitchClassLabel of
        None \<Rightarrow> None
      | Some pc \<Rightarrow> Some (12 * (oct + 1) + pc))"

text \<open>The remainder operator \<open>%\<close>: the result has the sign of the dividend.\<close>

definition js_rem :: "int \<Rightarrow> int \<Rightarrow> int" where
  "js_rem a b = sgn a * (\<bar>a\<bar> mod \<bar>b\<bar>)"

definition pitchFromMidi :: "int \<Rightarrow> string \<times> int" where
  "pitchFromMidi m =
     (let pc = js_rem m 12; oct = m div 12 - 1 in
      (case find (\<lambda>e. snd e = pc) PITCH_CLASS_TO_PC of
         Some e \<Rightarrow> fst e
       | None \<Rightarrow> [],
       oct))"

definition validMidisForPitchClass :: "string \<Rightarrow> int list" where
  "validMidisForPitchClass pc =
     concat (map (\<lambda>oct. case midiFromPitchClass pc oct of
                           Some m \<Rightarrow> (if m \<ge> MIN_MIDI \<and> m \<le> MAX_MIDI then [m] else [])
                         | None \<Rightarrow> [])
                 [0..8])"

record pitch =
  midi :: int
  pitchClass :: string
  octave :: int

fun nearest_loop :: "int \<Rightarrow> int list \<Rightarrow> int \<Rightarrow> int \<Rightarrow> int" where
  "nearest_loop targetMidi [] bestMidi bestDiffAbs = bestMidi"
| "nearest_loop targetMidi (c # cs) bestMidi bestDiffAbs =
     (let diff = \<bar>c - targetMidi\<bar> in
      if diff < bestDiffAbs \<or> (diff = bestDiffAbs \<and> c < bestMidi)
      then nearest_loop targetMidi cs c diff
      else nearest_loop targetMidi cs bestMidi bestDiffAbs)"

definition nearestMidiForPitchClass :: "string \<Rightarrow> int \<Rightarrow> pitch option" where
  "nearestMidiForPitchClass pc targetMidi =
     (case validMidisForPitchClass pc of
        [] \<Rightarrow> None
      | c # cs \<Rightarrow>
          (let bestMidi = nearest_loop targetMidi cs c \<bar>c - targetMidi\<bar> in
           Some \<lparr> midi = bestMidi,
                  pitchClass = fst (pitchFromMidi bestMidi),
                  octave = snd (pitchFromMidi bestMidi) \<rparr>))"

section \<open>Random choices\<close>

text \<open>
  A call of \<open>Math.random()\<close> is an input \<open>u\<close> of the model, a number with \<open>0 \<le> u < 1\<close>;
  the arithmetic on it is exact. \<open>pickRandom\<close> reads \<open>list[Math.floor(u * list.length)]\<close>,
  which is \<open>undefined\<close> (\<open>None\<close>) outside the list.
\<close>

definition pickRandom :: "real \<Rightarrow> 'a list \<Rightarrow> 'a option" where
  "pickRandom u xs =
     (let i = \<lfloor>u * real (length xs)\<rfloor> in
      if 0 \<le> i \<and> i < int (length xs) then Some (xs ! nat i) else None)"

definition INSTRUMENTS :: "string list" where
  "INSTRUMENTS =
     [''accordion'', ''acoustic_bass'', ''acoustic_guitar_nylon'', ''acoustic_guitar_steel'',
      ''alto_sax'', ''baritone_sax'', ''bright_acoustic_piano'', ''celesta'', ''choir_aahs'',
      ''church_organ'', ''clarinet'', ''contrabass'', ''distortion_guitar'',
      ''electric_piano_1'', ''english_horn'', ''french_horn'', ''fretless_bass'',
      ''fx_4_atmosphere'', ''koto'', ''lead_8_bass__lead'', ''music_box'', ''oboe'',
      ''overdriven_guitar'', ''pad_4_choir'', ''pan_flute'', ''soprano_sax'',
      ''string_ensemble_1'', ''tremolo_strings'', ''tuba'', ''tubular_bells'', ''vibraphone'',
      ''voice_oohs'']"

text \<open>
  Strings that may be \<open>undefined\<close> or \<open>null\<close> (\<open>None\<close>): their conversion to a boolean, and
  \<open>a || b\<close>.
\<close>

definition str_truthy :: "string option \<Rightarrow> bool" where
  "str_truthy a = (case a of Some s \<Rightarrow> s \<noteq> [] | None \<Rightarrow> False)"

definition str_or :: "string option \<Rightarrow> string option \<Rightarrow> string option" where
  "str_or a b = (case a of Some s \<Rightarrow> (if s \<noteq> [] then Some s else b) | None \<Rightarrow> b)"

section \<open>Target selection\<close>

text \<open>
  The loop \<open>for (i ...) if ((r -= weights[i]) <= 0) { pitchClass = ...; break }\<close> over the
  classes paired with their weights; \<open>None\<close> when the loop ends without a choice.
\<close>

fun weighted_loop :: "real \<Rightarrow> (string \<times> real) list \<Rightarrow> string option" where
  "weighted_loop r [] = None"
| "weighted_loop r (p # ps) =
     (if r - snd p \<le> 0 then Some (fst p) else weighted_loop (r - snd p) ps)"

definition choosePitchClass :: "real \<Rightarrow> string list \<Rightarrow> string option \<Rightarrow> string option" where
  "choosePitchClass u sel prevPitchClass =
     (if str_truthy prevPitchClass \<and> length sel > 1 \<and> the prevPitchClass \<in> set sel then
        (let weights = map (\<lambda>pc. if pc = the prevPitchClass then 1 / 2 else 1) sel;
             total = foldl (+) 0 weights;
             r = u * total
         in str_or (weighted_loop r (zip sel weights)) (Some (last sel)))
      else pickRandom u sel)"

text \<open>
  \<open>pickTarget\<close> with the selected pitch classes of its closure as the argument \<open>sel\<close>, and
  the two random draws it makes: \<open>u1\<close> for the pitch class, \<open>u2\<close> for the MIDI number.
\<close>

definition pickTarget :: "real \<Rightarrow> real \<Rightarrow> string list \<Rightarrow> int list \<Rightarrow> string option \<Rightarrow> pitch option" where
  "pickTarget u1 u2 sel excludeMidis prevPitchClass =
     (if length sel = 0 then None
      else
        (case choosePitchClass u1 sel prevPitchClass of
           None \<Rightarrow> None
         | Some pc \<Rightarrow>
             (let candidateMidis = validMidisForPitchClass pc in
              if candidateMidis = [] then None
              else
                (let filteredMidis = filter (\<lambda>m. m \<notin> set excludeMidis) candidateMidis;
                     poolMidis = (if filteredMidis \<noteq> [] then filteredMidis else candidateMidis)
                 in (case pickRandom u2 poolMidis of
                       None \<Rightarrow> None
                     | Some targetMidi \<Rightarrow>
                         Some \<lparr> midi = targetMidi, pitchClass = pc,
                                octave = snd (pitchFromMidi targetMidi) \<rparr>)))))"

section \<open>Statistics\<close>

record stat_row =
  label :: string
  total :: nat
  correct :: nat
  pct :: int

record summary =
  all :: stat_row
  rows :: "stat_row list"

text \<open>
  The accumulator of the \<open>forEach\<close> in \<open>summarizeBy\<close>: \<open>byLabel\<close> as the list of
  \<open>(label, total, correct)\<close> in the order of the twelve pitch classes, then \<open>totalCount\<close> and
  \<open>correctCount\<close>. \<open>byLabel[pc]\<close> is one of the twelve entries exactly when the key is one of
  the twelve labels; for a key inherited from \<open>Object.prototype\<close> the update lands outside
  the twelve entries and leaves them as they are.
\<close>

type_synonym stat_acc = "(string \<times> nat \<times> nat) list \<times> nat \<times> nat"

definition bump :: "string \<Rightarrow> bool \<Rightarrow> (string \<times> nat \<times> nat) list \<Rightarrow> (string \<times> nat \<times> nat) list" where
  "bump pc ok byLabel =
     map (\<lambda>(l, t, c). if l = pc then (l, t + 1, (if ok then c + 1 else c)) else (l, t, c)) byLabel"

definition summarize_item :: "json \<Rightarrow> stat_acc \<Rightarrow> error + stat_acc" where
  "summarize_item item acc =
     (case get_prop item ''pitchClass'' of
        Inl e \<Rightarrow> Inl e
      | Inr a \<Rightarrow>
          (case get_prop item ''letter'' of
             Inl e \<Rightarrow> Inl e
           | Inr b \<Rightarrow>
               (case get_prop item ''correct'' of
                  Inl e \<Rightarrow> Inl e
                | Inr c \<Rightarrow>
                    (let pc = property_key (nullish_coalesce a b);
                         (byLabel, totalCount, correctCount) = acc
                     in Inr (bump pc (truthy c) byLabel,
                             totalCount + 1,
                             (if truthy c then correctCount + 1 else correctCount))))))"

fun summarize_items :: "json list \<Rightarrow> stat_acc \<Rightarrow> error + stat_acc" where
  "summarize_items [] acc = Inr acc"
| "summarize_items (item # items) acc =
     (case summarize_item item acc of
        Inl e \<Rightarrow> Inl e
      | Inr acc' \<Rightarrow> summarize_items items acc')"

text \<open>\<open>history.filter(rangeFilter)\<close> with a callback that may throw.\<close>

fun filter_items :: "(json \<Rightarrow> error + bool) \<Rightarrow> json list \<Rightarrow> error + json list" where
  "filter_items f [] = Inr []"
| "filter_items f (x # xs) =
     (case f x of
        Inl e \<Rightarrow> Inl e
      | Inr keep \<Rightarrow>
          (case filter_items f xs of
             Inl e \<Rightarrow> Inl e
           | Inr ys \<Rightarrow> Inr (if keep then x # ys else ys)))"

subsection \<open>Double-precision arithmetic\<close>

text \<open>
  A JavaScript number is an IEEE 754 double, and the result of a division or multiplication
  is the double nearest to the exact result, the one with the even significand when two are
  equally near. A double is represented by the rational number it denotes. \<open>ilog2 q\<close> is the
  binary exponent of a positive \<open>q\<close>, the \<open>e\<close> with \<open>2^e \<le> q < 2^(e+1)\<close>, and \<open>to_double q\<close>
  rounds \<open>q\<close> to 53 significant bits. The range of the exponent of a double is not
  represented: the numbers rounded here, quotients of two counts and a hundred times such a
  quotient, lie far inside it.
\<close>

definition ilog2 :: "rat \<Rightarrow> int" where
  "ilog2 q =
     (let d = bitlen (fst (quotient_of q)) - bitlen (snd (quotient_of q))
      in if 2 powi d \<le> q then d else d - 1)"

definition round_half_even :: "rat \<Rightarrow> int" where
  "round_half_even m =
     (let f = \<lfloor>m\<rfloor>; r = m - of_int f
      in if r < 1 / 2 then f else if 1 / 2 < r then f + 1 else if even f then f else f + 1)"

definition to_double :: "rat \<Rightarrow> rat" where
  "to_double q =
     (if q = 0 then 0
      else (let e = ilog2 \<bar>q\<bar> - 52
            in of_int (round_half_even (q / 2 powi e)) * 2 powi e))"

text \<open>
  \<open>total ? Math.round((correct / total) * 100) : 0\<close> on two counts, which are doubles
  without a fraction: the quotient is rounded to a double, and so is its product with 100.
  \<open>Math.round\<close> of a double \<open>x\<close> is \<open>floor (x + 1/2)\<close>, computed exactly.
\<close>

definition percent :: "nat \<Rightarrow> nat \<Rightarrow> int" where
  "percent c t =
     (if t \<noteq> 0 then \<lfloor>to_double (to_double (of_nat c / of_nat t) * 100) + 1 / 2\<rfloor> else 0)"

definition summarizeBy :: "storage \<Rightarrow> (json \<Rightarrow> error + bool) option \<Rightarrow> error + summary" where
  "summarizeBy ls rangeFilter =
     (case loadHistory ls of
        JArr history \<Rightarrow>
          (case (case rangeFilter of Some f \<Rightarrow> filter_items f history | None \<Rightarrow> Inr history) of
             Inl e \<Rightarrow> Inl e
           | Inr items \<Rightarrow>
               (case summarize_items items (map (\<lambda>pc. (pc, 0, 0)) PITCH_CLASSES, 0, 0) of
                  Inl e \<Rightarrow> Inl e
                | Inr (byLabel, totalCount, correctCount) \<Rightarrow>
                    Inr \<lparr> all = \<lparr> label = ''All'', total = totalCount, correct = correctCount,
                                  pct = percent correctCount totalCount \<rparr>,
                          rows = map (\<lambda>(l, t, c). \<lparr> label = l, total = t, correct = c,
                                                    pct = percent c t \<rparr>) byLabel \<rparr>))
      | _ \<Rightarrow> Inl TypeError)"

text \<open>The history of the worked example: two guesses at C, one of them right, and a right one at E.\<close>

definition example_history :: "json list" where
  "example_history =
     [JObj [(''pitchClass'', JStr ''C''), (''correct'', JBool True)],
      JObj [(''pitchClass'', JStr ''C''), (''correct'', JBool False)],
      JObj [(''pitchClass'', JStr ''E''), (''correct'', JBool True)]]"

subsection \<open>Legacy events and sample filters\<close>

text \<open>
  The replacement of an event that has a \<open>pitchClass\<close> field by the event that is the same
  but for carrying that value in the field \<open>letter\<close> and having no field \<open>pitchClass\<close>;
  any other value is left as it is.
\<close>

definition to_legacy :: "json \<Rightarrow> json" where
  "to_legacy ev =
     (case ev of
        JObj kvs \<Rightarrow>
          (case map_of kvs ''pitchClass'' of
             Some v \<Rightarrow> JObj (set_prop ''letter'' v (filter (\<lambda>kv. fst kv \<noteq> ''pitchClass'') kvs))
           | None \<Rightarrow> ev)
      | _ \<Rightarrow> ev)"

text \<open>
  Two filters as \<open>summarizeBy\<close> accepts them: \<open>(item) => item.correct\<close> keeps the right
  guesses, \<open>(item) => item.pitchClass === "C"\<close> keeps the guesses at C.
\<close>

definition only_correct :: "json \<Rightarrow> error + bool" where
  "only_correct item =
     (case get_prop item ''correct'' of Inl e \<Rightarrow> Inl e | Inr v \<Rightarrow> Inr (truthy v))"

definition only_C :: "json \<Rightarrow> error + bool" where
  "only_C item =
     (case get_prop item ''pitchClass'' of
        Inl e \<Rightarrow> Inl e
      | Inr v \<Rightarrow> Inr (v = Some (JStr ''C'')))"

section \<open>The application state and its event handlers\<close>

record target = pitch +
  instrument :: "string option"

text \<open>
  The state of the component \<open>App\<close> between two events: the values of its state hooks and
  refs, the local storage, and the calls of \<open>playNoteName\<close> made so far (instrument, pitch
  class and octave of the note name). The statistics overlay and the loading of sound fonts
  are outside the model. \<open>selected\<close> is an object, as it is once a round has started.
\<close>

record app =
  selected :: "(string \<times> json) list"
  currentNote :: "target option"
  postGuess :: bool
  lastGuessLetter :: "string option"
  lastGuessCorrect :: "bool option"
  nearestMap :: "(string \<times> pitch) list option"
  lastPlayed :: "int list"
  nextInstrument :: "string option"
  localStorage :: storage
  played :: "(string option \<times> string \<times> int) list"

definition selectedPitchClasses :: "app \<Rightarrow> string list" where
  "selectedPitchClasses st = filter (\<lambda>pc. truthy (map_of (selected st) pc)) PITCH_CLASSES"

text \<open>\<open>[...xs, m].slice(-3)\<close>\<close>

definition push_last3 :: "int list \<Rightarrow> int \<Rightarrow> int list" where
  "push_last3 xs m = (let ys = xs @ [m] in drop (length ys - 3) ys)"

definition resetRound :: "app \<Rightarrow> app" where
  "resetRound st =
     st\<lparr> postGuess := False, lastGuessLetter := None, lastGuessCorrect := None,
         nearestMap := None, currentNote := None \<rparr>"

definition onToggle :: "string \<Rightarrow> app \<Rightarrow> app" where
  "onToggle pc st =
     (let onCount = length (selectedPitchClasses st);
          currentlyOn = truthy (map_of (selected st) pc)
      in if currentlyOn \<and> onCount \<le> 1 then st
         else
           (let next = set_prop pc (JBool (\<not> currentlyOn)) (selected st)
            in resetRound
                 (st\<lparr> selected := next,
                      localStorage := saveSelected (localStorage st) (JObj next) \<rparr>)))"

text \<open>
  The pitch class of the previous round, which \<open>onPlayNew\<close> passes to \<open>pickTarget\<close>: that of
  the current note, or else that of the note played last.
\<close>

definition prevPitchClassOf :: "app \<Rightarrow> string option" where
  "prevPitchClassOf st =
     str_or (case currentNote st of Some cur \<Rightarrow> Some (pitchClass cur) | None \<Rightarrow> None)
            (if length (lastPlayed st) \<noteq> 0
             then Some (fst (pitchFromMidi (last (lastPlayed st)))) else None)"

text \<open>
  \<open>onPlayNew\<close> with its random draws: \<open>u1\<close> and \<open>u2\<close> for \<open>pickTarget\<close>, \<open>u3\<close> for the
  instrument when none was prefetched, \<open>u4\<close> for the instrument of the next round.
\<close>

definition onPlayNew :: "real \<Rightarrow> real \<Rightarrow> real \<Rightarrow> real \<Rightarrow> app \<Rightarrow> app" where
  "onPlayNew u1 u2 u3 u4 st =
     (let prevPitchClass = prevPitchClassOf st
      in case pickTarget u1 u2 (selectedPitchClasses st) (lastPlayed st) prevPitchClass of
           None \<Rightarrow> st
         | Some targetNote \<Rightarrow>
             (let inst = str_or (nextInstrument st) (pickRandom u3 INSTRUMENTS)
              in st\<lparr> postGuess := False, lastGuessLetter := None, lastGuessCorrect := None,
                     nearestMap := None,
                     currentNote := Some (pitch.extend targetNote \<lparr> instrument = inst \<rparr>),
                     lastPlayed := push_last3 (lastPlayed st) (midi targetNote),
                     nextInstrument := pickRandom u4 INSTRUMENTS,
                     played := played st @ [(inst, pitchClass targetNote, octave targetNote)] \<rparr>))"

definition onReplay :: "real \<Rightarrow> app \<Rightarrow> app" where
  "onReplay u st =
     (case currentNote st of
        None \<Rightarrow> st
      | Some cur \<Rightarrow>
          (let inst = str_or (instrument cur) (pickRandom u INSTRUMENTS)
           in st\<lparr> played := played st @ [(inst, pitchClass cur, octave cur)] \<rparr>))"

text \<open>The object pushed by \<open>recordGuess\<close>; \<open>now\<close> is the value of \<open>Date.now()\<close>.\<close>

definition guessEvent :: "int \<Rightarrow> target \<Rightarrow> string \<Rightarrow> json" where
  "guessEvent now tgt guessPitchClass =
     JObj [(''ts'', JNum now), (''midi'', JNum (midi tgt)), (''pitchClass'', JStr (pitchClass tgt)),
           (''letter'', JStr (pitchClass tgt)), (''octave'', JNum (octave tgt)),
           (''guess'', JStr guessPitchClass),
           (''correct'', JBool (guessPitchClass = pitchClass tgt))]"

text \<open>
  \<open>recordGuess\<close> returns the storage after \<open>saveHistory\<close> and the result \<open>correct\<close>; \<open>push\<close>
  on a stored value that is not an array throws.
\<close>

definition recordGuess :: "storage \<Rightarrow> int \<Rightarrow> target \<Rightarrow> string \<Rightarrow> error + storage \<times> bool" where
  "recordGuess ls now tgt guessPitchClass =
     (case loadHistory ls of
        JArr history \<Rightarrow>
          Inr (saveHistory ls (JArr (history @ [guessEvent now tgt guessPitchClass])),
               guessPitchClass = pitchClass tgt)
      | _ \<Rightarrow> Inl TypeError)"

definition nearestByPitchClass :: "string list \<Rightarrow> int \<Rightarrow> (string \<times> pitch) list" where
  "nearestByPitchClass pcs m =
     concat (map (\<lambda>pc. case nearestMidiForPitchClass pc m of
                          Some nearest \<Rightarrow> [(pc, nearest)]
                        | None \<Rightarrow> []) pcs)"

text \<open>
  An exception that a handler does not catch ends the handler: the result is \<open>Inl\<close>, and the
  model does not follow the state any further.
\<close>

definition onGuess :: "int \<Rightarrow> string \<Rightarrow> app \<Rightarrow> error + app" where
  "onGuess now pc st =
     (case currentNote st of
        None \<Rightarrow> Inr st
      | Some cur \<Rightarrow>
          (case recordGuess (localStorage st) now cur pc of
             Inl e \<Rightarrow> Inl e
           | Inr (ls', isCorrect) \<Rightarrow>
               Inr (st\<lparr> localStorage := ls',
                        lastGuessLetter := Some pc, lastGuessCorrect := Some isCorrect,
                        nearestMap := Some (nearestByPitchClass (selectedPitchClasses st) (midi cur)),
                        postGuess := True \<rparr>)))"

text \<open>
  The \<open>onClick\<close> of the guess button of the pitch class \<open>pc\<close>; \<open>u\<close> is the draw for the
  instrument when the current note has none.
\<close>

definition guessClick :: "real \<Rightarrow> int \<Rightarrow> string \<Rightarrow> app \<Rightarrow> error + app" where
  "guessClick u now pc st =
     (if \<not> postGuess st then
        onGuess now pc
          (case currentNote st of
             None \<Rightarrow> st
           | Some cur \<Rightarrow>
               (case nearestMidiForPitchClass pc (midi cur) of
                  None \<Rightarrow> st
                | Some nearest \<Rightarrow>
                    (let inst = str_or (instrument cur) (pickRandom u INSTRUMENTS)
                     in st\<lparr> lastPlayed := push_last3 (lastPlayed st) (midi nearest),
                            played := played st @ [(inst, pitchClass nearest, octave nearest)] \<rparr>)))
      else
        (case (case nearestMap st of Some nm \<Rightarrow> map_of nm pc | None \<Rightarrow> None) of
           Some preview \<Rightarrow>
             (let previewMidi = midi preview;
                  inst = str_or (case currentNote st of Some cur \<Rightarrow> instrument cur | None \<Rightarrow> None)
                                (pickRandom u INSTRUMENTS)
              in Inr (st\<lparr> lastPlayed := push_last3 (lastPlayed st) previewMidi,
                           played := played st @ [(inst, fst (pitchFromMidi previewMidi),
                                                   snd (pitchFromMidi previewMidi))] \<rparr>))
         | None \<Rightarrow> Inr st))"

text \<open>The \<open>onClick\<close> of the play button: replay while a note awaits its guess, a new note otherwise.\<close>

definition playClick :: "real \<Rightarrow> real \<Rightarrow> real \<Rightarrow> real \<Rightarrow> app \<Rightarrow> app" where
  "playClick u1 u2 u3 u4 st =
     (if currentNote st \<noteq> None \<and> \<not> postGuess st then onReplay u3 st
      else onPlayNew u1 u2 u3 u4 st)"

subsection \<open>Sample states\<close>

text \<open>
  The state after mounting with an empty storage: the default selection, no round, and the
  instrument koto prefetched.
\<close>

definition st_initial :: app where
  "st_initial =
     \<lparr> selected = [(''C'', JBool True), (''E'', JBool True), (''G#'', JBool True)],
       currentNote = None,
       postGuess = False, lastGuessLetter = None, lastGuessCorrect = None, nearestMap = None,
       lastPlayed = [], nextInstrument = Some ''koto'', localStorage = Map.empty,
       played = [] \<rparr>"

text \<open>
  The state after \<open>onPlayNew\<close> chose E4 in the initial state: the note awaits its guess.
\<close>

definition st_prompted :: app where
  "st_prompted =
     \<lparr> selected = [(''C'', JBool True), (''E'', JBool True), (''G#'', JBool True)],
       currentNote = Some \<lparr> midi = 64, pitchClass = ''E'', octave = 4, instrument = Some ''koto'' \<rparr>,
       postGuess = False, lastGuessLetter = None, lastGuessCorrect = None, nearestMap = None,
       lastPlayed = [64], nextInstrument = Some ''tuba'', localStorage = Map.empty,
       played = [(Some ''koto'', ''E'', 4)] \<rparr>"

text \<open>The same round after the guess C, recorded at the time 1000.\<close>

definition st_guessed :: app where
  "st_guessed =
     st_prompted
       \<lparr> postGuess := True, lastGuessLetter := Some ''C'', lastGuessCorrect := Some False,
         nearestMap := Some [(''C'', \<lparr> midi = 60, pitchClass = ''C'', octave = 4 \<rparr>),
                             (''E'', \<lparr> midi = 64, pitchClass = ''E'', octave = 4 \<rparr>),
                             (''G#'', \<lparr> midi = 68, pitchClass = ''G#'', octave = 4 \<rparr>)],
         lastPlayed := [64, 60],
         localStorage := saveHistory Map.empty
            (JArr [JObj [(''ts'', JNum 1000), (''midi'', JNum 64), (''pitchClass'', JStr ''E''),
                         (''letter'', JStr ''E''), (''octave'', JNum 4), (''guess'', JStr ''C''),
                         (''correct'', JBool False)]]),
         played := [(Some ''koto'', ''E'', 4), (Some ''koto'', ''C'', 4)] \<rparr>"

text \<open>A state with a single selected pitch class.\<close>

definition st_single :: app where
  "st_single = st_prompted \<lparr> selected := [(''C'', JBool False), (''E'', JBool True)] \<rparr>"

section \<open>Pitch and MIDI arithmetic: the round trip\<close>

lemma js_rem_nonneg: "0 \<le> a \<Longrightarrow> js_rem a 12 = a mod 12"
  by (cases "a = 0") (simp_all add: js_rem_def)

lemma map_of_pitch_class:
  "P \<in> set PITCH_CLASSES \<Longrightarrow>
   \<exists>k. map_of PITCH_CLASS_TO_PC P = Some k \<and> 0 \<le> k \<and> k < 12 \<and> PITCH_CLASSES ! nat k = P"
  unfolding PITCH_CLASSES_def PITCH_CLASS_TO_PC_def by auto

lemma find_pitch_class:
  assumes "0 \<le> k" "k < 12"
  shows "find (\<lambda>e. snd e = k) PITCH_CLASS_TO_PC = Some (PITCH_CLASSES ! nat k, k)"
proof -
  from assms have "k = 0 \<or> k = 1 \<or> k = 2 \<or> k = 3 \<or> k = 4 \<or> k = 5 \<or> k = 6 \<or> k = 7 \<or>
    k = 8 \<or> k = 9 \<or> k = 10 \<or> k = 11" by arith
  then show ?thesis
    unfolding PITCH_CLASSES_def PITCH_CLASS_TO_PC_def
    by (elim disjE) simp_all
qed

lemma pitchFromMidi_of_class:
  assumes P: "P \<in> set PITCH_CLASSES" and m: "midiFromPitchClass P oct = Some m" and nn: "0 \<le> m"
  shows "pitchFromMidi m = (P, oct)"
proof -
  from map_of_pitch_class [OF P] obtain k where
    k: "map_of PITCH_CLASS_TO_PC P = Some k" "0 \<le> k" "k < 12" "PITCH_CLASSES ! nat k = P"
    by blast
  from m k(1) have meq: "m = 12 * (oct + 1) + k"
    by (simp add: midiFromPitchClass_def)
  from nn have r: "js_rem m 12 = m mod 12" by (rule js_rem_nonneg)
  have md: "m mod 12 = k" using meq k(2,3) by presburger
  have dv: "m div 12 - 1 = oct" using meq k(2,3) by presburger
  show ?thesis
    by (simp add: pitchFromMidi_def Let_def r md dv find_pitch_class [OF k(2,3)] k(4))
qed

text \<open>
  C7. For each of the twelve pitch-class labels \<open>P\<close> and each octave \<open>oct\<close> from 0 to 8
  whose MIDI number \<open>midiFromPitchClass P oct\<close> lies between 45 and 79, \<open>pitchFromMidi\<close> of
  that number is \<open>(P, oct)\<close> again.
\<close>

theorem roundtrip:
  "P \<in> set PITCH_CLASSES \<Longrightarrow> oct \<in> {0..8} \<Longrightarrow> midiFromPitchClass P oct = Some m \<Longrightarrow>
   MIN_MIDI \<le> m \<Longrightarrow> m \<le> MAX_MIDI \<Longrightarrow> pitchFromMidi m = (P, oct)"
proof -
  assume P: "P \<in> set PITCH_CLASSES" and m: "midiFromPitchClass P oct = Some m"
    and lo: "MIN_MIDI \<le> m"
  from lo have "0 \<le> m" by (simp add: MIN_MIDI_def)
  with P m show ?thesis by (rule pitchFromMidi_of_class)
qed

theorem roundtrip_witness:
  "''G#'' \<in> set PITCH_CLASSES \<and> (4::int) \<in> {0..8} \<and> midiFromPitchClass ''G#'' 4 = Some 68 \<and>
   MIN_MIDI \<le> 68 \<and> 68 \<le> MAX_MIDI \<and> pitchFromMidi 68 = (''G#'', 4)"
proof -
  have a: "''G#'' \<in> set PITCH_CLASSES" by (simp add: PITCH_CLASSES_def)
  have b: "(4::int) \<in> {0..8}" by simp
  have c: "midiFromPitchClass ''G#'' 4 = Some 68"
    by (simp add: midiFromPitchClass_def PITCH_CLASS_TO_PC_def)
  have d: "MIN_MIDI \<le> 68" by (simp add: MIN_MIDI_def)
  have e: "68 \<le> MAX_MIDI" by (simp add: MAX_MIDI_def)
  from roundtrip [OF a b c d e] a b c d e show ?thesis by simp
qed

section \<open>The nearest note of a pitch class\<close>

lemma valid_table:
  "map validMidisForPitchClass PITCH_CLASSES =
     [[48, 60, 72], [49, 61, 73], [50, 62, 74], [51, 63, 75], [52, 64, 76], [53, 65, 77],
      [54, 66, 78], [55, 67, 79], [56, 68], [45, 57, 69], [46, 58, 70], [47, 59, 71]]"
  by code_simp

lemma valid_nonempty: "P \<in> set PITCH_CLASSES \<Longrightarrow> validMidisForPitchClass P \<noteq> []"
proof -
  assume "P \<in> set PITCH_CLASSES"
  then have "validMidisForPitchClass P \<in> set (map validMidisForPitchClass PITCH_CLASSES)"
    by simp
  then show ?thesis unfolding valid_table by auto
qed

text \<open>
  The loop keeps the candidate that is least in the order "nearer to the target first, the
  smaller number among equally near ones", whatever the order of the candidates.
\<close>

lemma nearest_loop_spec:
  "d = \<bar>b - t\<bar> \<Longrightarrow>
   nearest_loop t cs b d \<in> set (b # cs) \<and>
   (\<forall>c \<in> set (b # cs). \<bar>nearest_loop t cs b d - t\<bar> < \<bar>c - t\<bar> \<or>
       (\<bar>nearest_loop t cs b d - t\<bar> = \<bar>c - t\<bar> \<and> nearest_loop t cs b d \<le> c))"
proof (induction cs arbitrary: b d)
  case Nil
  then show ?case by simp
next
  case (Cons c cs)
  let ?diff = "\<bar>c - t\<bar>"
  show ?case
  proof (cases "?diff < d \<or> (?diff = d \<and> c < b)")
    case True
    then have step: "nearest_loop t (c # cs) b d = nearest_loop t cs c ?diff"
      by (simp add: Let_def)
    from Cons.IH [of ?diff c] have ih:
      "nearest_loop t cs c ?diff \<in> set (c # cs)"
      "\<forall>x \<in> set (c # cs). \<bar>nearest_loop t cs c ?diff - t\<bar> < \<bar>x - t\<bar> \<or>
         (\<bar>nearest_loop t cs c ?diff - t\<bar> = \<bar>x - t\<bar> \<and> nearest_loop t cs c ?diff \<le> x)"
      by simp_all
    from ih(2) have atc: "\<bar>nearest_loop t cs c ?diff - t\<bar> < ?diff \<or>
         (\<bar>nearest_loop t cs c ?diff - t\<bar> = ?diff \<and> nearest_loop t cs c ?diff \<le> c)"
      by simp
    have atb: "\<bar>nearest_loop t cs c ?diff - t\<bar> < \<bar>b - t\<bar> \<or>
         (\<bar>nearest_loop t cs c ?diff - t\<bar> = \<bar>b - t\<bar> \<and> nearest_loop t cs c ?diff \<le> b)"
      using atc True Cons.prems by linarith
    show ?thesis
      unfolding step using ih atb by auto
  next
    case False
    then have step: "nearest_loop t (c # cs) b d = nearest_loop t cs b d"
      by (auto simp: Let_def)
    from Cons.IH [OF Cons.prems] have ih:
      "nearest_loop t cs b d \<in> set (b # cs)"
      "\<forall>x \<in> set (b # cs). \<bar>nearest_loop t cs b d - t\<bar> < \<bar>x - t\<bar> \<or>
         (\<bar>nearest_loop t cs b d - t\<bar> = \<bar>x - t\<bar> \<and> nearest_loop t cs b d \<le> x)"
      by simp_all
    from ih(2) have atb: "\<bar>nearest_loop t cs b d - t\<bar> < \<bar>b - t\<bar> \<or>
         (\<bar>nearest_loop t cs b d - t\<bar> = \<bar>b - t\<bar> \<and> nearest_loop t cs b d \<le> b)"
      by simp
    have atc: "\<bar>nearest_loop t cs b d - t\<bar> < ?diff \<or>
         (\<bar>nearest_loop t cs b d - t\<bar> = ?diff \<and> nearest_loop t cs b d \<le> c)"
      using atb False Cons.prems by linarith
    show ?thesis
      unfolding step using ih atc by auto
  qed
qed

text \<open>
  C3. \<open>nearestMidiForPitchClass P t\<close> is \<open>null\<close> exactly when \<open>P\<close> has no valid MIDI number,
  which is the case for none of the twelve pitch classes; a note it returns is one of the
  valid MIDI numbers of \<open>P\<close>, no other valid number is nearer to \<open>t\<close>, and no equally near one
  is smaller.
\<close>

theorem nearest_ok:
  "(nearestMidiForPitchClass P t = None \<longleftrightarrow> validMidisForPitchClass P = []) \<and>
   (\<forall>r. nearestMidiForPitchClass P t = Some r \<longrightarrow>
      midi r \<in> set (validMidisForPitchClass P) \<and>
      (\<forall>c \<in> set (validMidisForPitchClass P).
         \<bar>midi r - t\<bar> \<le> \<bar>c - t\<bar> \<and> (\<bar>c - t\<bar> = \<bar>midi r - t\<bar> \<longrightarrow> midi r \<le> c))) \<and>
   (P \<in> set PITCH_CLASSES \<longrightarrow> validMidisForPitchClass P \<noteq> [])"
proof (intro conjI allI impI)
  show "nearestMidiForPitchClass P t = None \<longleftrightarrow> validMidisForPitchClass P = []"
    by (simp add: nearestMidiForPitchClass_def Let_def split: list.splits)
next
  fix r assume r: "nearestMidiForPitchClass P t = Some r"
  then obtain c cs where v: "validMidisForPitchClass P = c # cs"
    and m: "midi r = nearest_loop t cs c \<bar>c - t\<bar>"
    by (auto simp: nearestMidiForPitchClass_def Let_def split: list.splits)
  from nearest_loop_spec [of "\<bar>c - t\<bar>" c t cs]
  have mem: "midi r \<in> set (c # cs)"
    and best: "\<forall>x \<in> set (c # cs). \<bar>midi r - t\<bar> < \<bar>x - t\<bar> \<or> (\<bar>midi r - t\<bar> = \<bar>x - t\<bar> \<and> midi r \<le> x)"
    unfolding m by simp_all
  show "midi r \<in> set (validMidisForPitchClass P)" using mem v by simp
  show "\<forall>c \<in> set (validMidisForPitchClass P).
         \<bar>midi r - t\<bar> \<le> \<bar>c - t\<bar> \<and> (\<bar>c - t\<bar> = \<bar>midi r - t\<bar> \<longrightarrow> midi r \<le> c)"
    unfolding v using best by fastforce
next
  assume "P \<in> set PITCH_CLASSES"
  then show "validMidisForPitchClass P \<noteq> []" by (rule valid_nonempty)
qed

text \<open>The target 54 is as far from 48 as from 60: the smaller one is returned.\<close>

theorem nearest_ok_witness:
  "''C'' \<in> set PITCH_CLASSES \<and>
   nearestMidiForPitchClass ''C'' 54 = Some \<lparr>midi = 48, pitchClass = ''C'', octave = 3\<rparr> \<and>
   validMidisForPitchClass ''C'' = [48, 60, 72] \<and>
   48 \<in> set (validMidisForPitchClass ''C'') \<and> \<bar>60 - 54\<bar> = \<bar>48 - (54::int)\<bar> \<and> (48::int) \<le> 60"
proof -
  have a: "nearestMidiForPitchClass ''C'' 54 = Some \<lparr>midi = 48, pitchClass = ''C'', octave = 3\<rparr>"
    by code_simp
  have b: "validMidisForPitchClass ''C'' = [48, 60, 72]" by code_simp
  have c: "''C'' \<in> set PITCH_CLASSES" by (simp add: PITCH_CLASSES_def)
  from nearest_ok [of "''C''" 54] a
  have "midi \<lparr>midi = 48, pitchClass = ''C'', octave = 3\<rparr> \<in> set (validMidisForPitchClass ''C'')"
    by simp
  with a b c show ?thesis by simp
qed

section \<open>Loading the persisted state\<close>

text \<open>
  C10, as amended. The load functions return a value for every content of the storage: no
  exception leaves them. The selection is the default when the stored string is absent or
  does not parse, and the parsed value as it is otherwise. The history is the empty list
  when the stored string is absent or does not parse, and also when it parses to a falsy
  value (\<open>null\<close>, \<open>false\<close>, \<open>0\<close>, the empty string); any other parsed value is returned as
  it is.
\<close>

theorem load_fallbacks:
  "loadSelected ls =
     (case getItem ls LS_selected of
        None \<Rightarrow> default_selected
      | Some r \<Rightarrow> (case JSON_parse r of None \<Rightarrow> default_selected | Some v \<Rightarrow> v)) \<and>
   loadHistory ls =
     (case getItem ls LS_history of
        None \<Rightarrow> JArr []
      | Some r \<Rightarrow>
          (case JSON_parse r of
             None \<Rightarrow> JArr []
           | Some v \<Rightarrow> (if truthy (Some v) then v else JArr [])))"
proof
  show "loadSelected ls =
     (case getItem ls LS_selected of
        None \<Rightarrow> default_selected
      | Some r \<Rightarrow> (case JSON_parse r of None \<Rightarrow> default_selected | Some v \<Rightarrow> v))"
  proof (cases "getItem ls LS_selected")
    case None
    then show ?thesis by (simp add: loadSelected_def)
  next
    case (Some r)
    then show ?thesis by (cases r) (simp_all add: loadSelected_def)
  qed
  show "loadHistory ls =
     (case getItem ls LS_history of
        None \<Rightarrow> JArr []
      | Some r \<Rightarrow>
          (case JSON_parse r of
             None \<Rightarrow> JArr []
           | Some v \<Rightarrow> (if truthy (Some v) then v else JArr [])))"
  proof (cases "getItem ls LS_history")
    case None
    then show ?thesis by (simp add: loadHistory_def)
  next
    case (Some r)
    then show ?thesis by (cases r) (simp_all add: loadHistory_def)
  qed
qed

text \<open>
  The stored history \<open>null\<close> is present and parses, and the history loaded is the empty
  list all the same; the stored selection \<open>null\<close> is returned as it is.
\<close>

theorem load_history_null:
  "getItem (setItem Map.empty LS_history (Wellformed JNull)) LS_history = Some (Wellformed JNull) \<and>
   JSON_parse (Wellformed JNull) = Some JNull \<and>
   loadHistory (setItem Map.empty LS_history (Wellformed JNull)) = JArr [] \<and>
   loadSelected (setItem Map.empty LS_selected (Wellformed JNull)) = JNull"
  by (simp add: loadHistory_def loadSelected_def getItem_def setItem_def)

section \<open>Rounding to double precision\<close>











section \<open>Statistics of the history\<close>







lemma loadHistory_saveHistory: "loadHistory (saveHistory ls (JArr h)) = JArr h"
  by (simp add: loadHistory_def saveHistory_def getItem_def setItem_def JSON_stringify_def)







section \<open>Recording a guess\<close>

lemma recordGuess_ok:
  "loadHistory ls = JArr history \<Longrightarrow>
   recordGuess ls now cur pc =
     Inr (saveHistory ls (JArr (history @ [guessEvent now cur pc])), pc = pitchClass cur)"
  by (simp add: recordGuess_def)

lemma onGuess_ok:
  assumes "currentNote st = Some cur" "loadHistory (localStorage st) = JArr history"
  shows "onGuess now pc st =
     Inr (st\<lparr> localStorage := saveHistory (localStorage st) (JArr (history @ [guessEvent now cur pc])),
              lastGuessLetter := Some pc, lastGuessCorrect := Some (pc = pitchClass cur),
              nearestMap := Some (nearestByPitchClass (selectedPitchClasses st) (midi cur)),
              postGuess := True \<rparr>)"
  using assms by (simp add: onGuess_def recordGuess_ok)

text \<open>
  C1, as amended. In the Prompted state (a current note, no guess yet), with a stored
  history that reads as a list, \<open>onGuess\<close> for any pitch class, and so the click on a guess
  button that calls it, appends exactly one event to the stored history and leaves the
  earlier entries as they were. The
  event has the seven fields \<open>ts\<close>, \<open>midi\<close>, \<open>pitchClass\<close>, \<open>letter\<close>, \<open>octave\<close>, \<open>guess\<close>
  and \<open>correct\<close>: the six of the data model and the legacy field \<open>letter\<close>, which repeats the
  pitch class of the target. \<open>correct\<close> is true exactly when the guessed pitch class is that
  of the target, and the same value becomes the feedback of the round.
\<close>

theorem guess_records:
  assumes cur: "currentNote st = Some cur" and prompted: "\<not> postGuess st"
    and hist: "loadHistory (localStorage st) = JArr history"
  shows "\<exists>st'. onGuess now pc st = Inr st' \<and>
           loadHistory (localStorage st') =
             JArr (history @
               [JObj [(''ts'', JNum now), (''midi'', JNum (midi cur)),
                      (''pitchClass'', JStr (pitchClass cur)), (''letter'', JStr (pitchClass cur)),
                      (''octave'', JNum (octave cur)), (''guess'', JStr pc),
                      (''correct'', JBool (pc = pitchClass cur))]]) \<and>
           lastGuessLetter st' = Some pc \<and>
           lastGuessCorrect st' = Some (pc = pitchClass cur) \<and>
           postGuess st' \<and> currentNote st' = Some cur \<and>
           (\<exists>st''. guessClick u now pc st = Inr st'' \<and>
              localStorage st'' = localStorage st' \<and>
              lastGuessLetter st'' = Some pc \<and>
              lastGuessCorrect st'' = Some (pc = pitchClass cur) \<and>
              postGuess st'' \<and> currentNote st'' = Some cur)"
proof -
  define st1 where "st1 =
          (case currentNote st of
             None \<Rightarrow> st
           | Some cur \<Rightarrow>
               (case nearestMidiForPitchClass pc (midi cur) of
                  None \<Rightarrow> st
                | Some nearest \<Rightarrow>
                    (let inst = str_or (instrument cur) (pickRandom u INSTRUMENTS)
                     in st\<lparr> lastPlayed := push_last3 (lastPlayed st) (midi nearest),
                            played := played st @ [(inst, pitchClass nearest, octave nearest)] \<rparr>)))"
  have c1: "currentNote st1 = Some cur" and h1: "loadHistory (localStorage st1) = JArr history"
    and l1: "localStorage st1 = localStorage st"
    using cur hist by (simp_all add: st1_def Let_def split: option.splits)
  have click: "guessClick u now pc st = onGuess now pc st1"
    using prompted by (simp add: guessClick_def st1_def)
  show ?thesis
    by (simp add: click onGuess_ok [OF cur hist] onGuess_ok [OF c1 h1] l1
          loadHistory_saveHistory guessEvent_def cur c1)
qed

theorem guess_records_witness:
  "currentNote st_prompted = Some \<lparr> midi = 64, pitchClass = ''E'', octave = 4, instrument = Some ''koto'' \<rparr> \<and>
   \<not> postGuess st_prompted \<and> loadHistory (localStorage st_prompted) = JArr [] \<and>
   (\<exists>st'. onGuess 1000 ''C'' st_prompted = Inr st' \<and>
      loadHistory (localStorage st') =
        JArr [JObj [(''ts'', JNum 1000), (''midi'', JNum 64), (''pitchClass'', JStr ''E''),
                    (''letter'', JStr ''E''), (''octave'', JNum 4), (''guess'', JStr ''C''),
                    (''correct'', JBool False)]] \<and>
      lastGuessCorrect st' = Some False)"
proof -
  have a: "currentNote st_prompted = Some \<lparr> midi = 64, pitchClass = ''E'', octave = 4, instrument = Some ''koto'' \<rparr>"
    by (simp add: st_prompted_def)
  have b: "\<not> postGuess st_prompted" by (simp add: st_prompted_def)
  have c: "loadHistory (localStorage st_prompted) = JArr []"
    by (simp add: st_prompted_def loadHistory_def getItem_def)
  from guess_records [OF a b c, where now = 1000 and pc = "''C''" and u = 0] a b c
  show ?thesis by auto
qed

text \<open>
  The event recorded for the guess C at the target E4 has a seventh field, \<open>letter\<close>.
\<close>

theorem guess_event_has_letter:
  "recordGuess Map.empty 1000
      \<lparr> midi = 64, pitchClass = ''E'', octave = 4, instrument = Some ''koto'' \<rparr> ''C'' =
     Inr (saveHistory Map.empty
            (JArr [JObj [(''ts'', JNum 1000), (''midi'', JNum 64), (''pitchClass'', JStr ''E''),
                         (''letter'', JStr ''E''), (''octave'', JNum 4), (''guess'', JStr ''C''),
                         (''correct'', JBool False)]]), False) \<and>
   get_prop (guessEvent 1000
      \<lparr> midi = 64, pitchClass = ''E'', octave = 4, instrument = Some ''koto'' \<rparr> ''C'') ''letter'' =
     Inr (Some (JStr ''E''))"
  by (simp add: recordGuess_def loadHistory_def getItem_def guessEvent_def)

section \<open>Toggling a pitch class\<close>

lemma map_of_set_prop: "map_of (set_prop k v kvs) q = (if q = k then Some v else map_of kvs q)"
  by (induction kvs) auto

lemma distinct_PITCH_CLASSES: "distinct PITCH_CLASSES"
  by (simp add: PITCH_CLASSES_def)

lemma filter_remove_one:
  "distinct xs \<Longrightarrow> \<forall>x. x \<noteq> k \<longrightarrow> Q x = P x \<Longrightarrow>
   length (filter P xs) \<le> Suc (length (filter Q xs))"
proof (induction xs)
  case Nil
  then show ?case by simp
next
  case (Cons x xs)
  from Cons have ih: "length (filter P xs) \<le> Suc (length (filter Q xs))" by simp
  show ?case
  proof (cases "x = k")
    case True
    with Cons.prems(1) have "k \<notin> set xs" by simp
    with Cons.prems(2) have "\<forall>y \<in> set xs. Q y = P y" by metis
    then have "filter Q xs = filter P xs"
      by (intro filter_cong refl) simp
    then show ?thesis by simp
  next
    case False
    with Cons.prems(2) have "Q x = P x" by simp
    with ih show ?thesis by simp
  qed
qed

lemma toggle_keeps_nonempty:
  assumes ne: "selectedPitchClasses st \<noteq> []"
  shows "selectedPitchClasses (onToggle pc st) \<noteq> []"
proof (cases "truthy (map_of (selected st) pc) \<and> length (selectedPitchClasses st) \<le> 1")
  case True
  then show ?thesis using ne by (simp add: onToggle_def Let_def)
next
  case False
  define on where "on = truthy (map_of (selected st) pc)"
  define next_sel where "next_sel = set_prop pc (JBool (\<not> on)) (selected st)"
  have step: "onToggle pc st =
      resetRound (st\<lparr> selected := next_sel,
                           localStorage := saveSelected (localStorage st) (JObj next_sel) \<rparr>)"
    unfolding onToggle_def Let_def next_sel_def on_def by (simp only: if_not_P [OF False])
  have sel': "selectedPitchClasses (onToggle pc st) =
      filter (\<lambda>q. truthy (map_of next_sel q)) PITCH_CLASSES"
    by (simp add: step resetRound_def selectedPitchClasses_def)
  have agree: "\<And>q. q \<noteq> pc \<Longrightarrow> truthy (map_of next_sel q) = truthy (map_of (selected st) q)"
    by (simp add: next_sel_def map_of_set_prop)
  show ?thesis
  proof (cases on)
    case True
    with False have two: "2 \<le> length (selectedPitchClasses st)" by (simp add: on_def)
    from agree have "\<forall>q. q \<noteq> pc \<longrightarrow>
        truthy (map_of next_sel q) = truthy (map_of (selected st) q)" by simp
    from filter_remove_one [OF distinct_PITCH_CLASSES this]
    have "length (filter (\<lambda>q. truthy (map_of (selected st) q)) PITCH_CLASSES)
        \<le> Suc (length (filter (\<lambda>q. truthy (map_of next_sel q)) PITCH_CLASSES))"
      by simp
    with two have "1 \<le> length (filter (\<lambda>q. truthy (map_of next_sel q)) PITCH_CLASSES)"
      unfolding selectedPitchClasses_def by simp
    then have "1 \<le> length (selectedPitchClasses (onToggle pc st))"
      by (simp only: sel')
    then show ?thesis by auto
  next
    case off: False
    from ne obtain q where q: "q \<in> set PITCH_CLASSES" "truthy (map_of (selected st) q)"
      unfolding selectedPitchClasses_def by (auto simp: filter_empty_conv)
    with off have "q \<noteq> pc" by (auto simp: on_def)
    with q agree have "truthy (map_of next_sel q)" by simp
    with q(1) show ?thesis unfolding sel' by (auto simp: filter_empty_conv)
  qed
qed

text \<open>
  C9. A toggle that would switch off the only selected pitch class is refused: the state
  stays as it is. Every other toggle ends the round: the current note, the feedback of the
  guess and the preview map are cleared, and the pitch class is switched. No toggle touches
  the stored history, and a non-empty selection stays non-empty.
\<close>

theorem toggle_ends_round:
  "(truthy (map_of (selected st) pc) \<and> length (selectedPitchClasses st) \<le> 1 \<longrightarrow>
      onToggle pc st = st) \<and>
   (\<not> (truthy (map_of (selected st) pc) \<and> length (selectedPitchClasses st) \<le> 1) \<longrightarrow>
      currentNote (onToggle pc st) = None \<and>
      \<not> postGuess (onToggle pc st) \<and>
      lastGuessLetter (onToggle pc st) = None \<and>
      lastGuessCorrect (onToggle pc st) = None \<and>
      nearestMap (onToggle pc st) = None \<and>
      map_of (selected (onToggle pc st)) pc = Some (JBool (\<not> truthy (map_of (selected st) pc)))) \<and>
   getItem (localStorage (onToggle pc st)) LS_history = getItem (localStorage st) LS_history \<and>
   loadHistory (localStorage (onToggle pc st)) = loadHistory (localStorage st) \<and>
   (selectedPitchClasses st \<noteq> [] \<longrightarrow> selectedPitchClasses (onToggle pc st) \<noteq> [])"
proof -
  have keys: "LS_history \<noteq> LS_selected" by (simp add: LS_history_def LS_selected_def)
  have g: "getItem (localStorage (onToggle pc st)) LS_history = getItem (localStorage st) LS_history"
    using keys by (simp add: onToggle_def Let_def resetRound_def saveSelected_def setItem_def getItem_def)
  then have h: "loadHistory (localStorage (onToggle pc st)) = loadHistory (localStorage st)"
    by (simp add: loadHistory_def)
  show ?thesis
    using g h toggle_keeps_nonempty [of st pc]
    by (simp add: onToggle_def Let_def resetRound_def map_of_set_prop)
qed

theorem toggle_ends_round_witness:
  "currentNote st_prompted \<noteq> None \<and>
   \<not> (truthy (map_of (selected st_prompted) ''C'') \<and> length (selectedPitchClasses st_prompted) \<le> 1) \<and>
   currentNote (onToggle ''C'' st_prompted) = None \<and>
   map_of (selected (onToggle ''C'' st_prompted)) ''C'' = Some (JBool False) \<and>
   selectedPitchClasses st_prompted \<noteq> [] \<and>
   selectedPitchClasses (onToggle ''C'' st_prompted) \<noteq> [] \<and>
   truthy (map_of (selected st_single) ''E'') \<and> length (selectedPitchClasses st_single) \<le> 1 \<and>
   onToggle ''E'' st_single = st_single"
proof -
  have a: "selectedPitchClasses st_prompted = [''C'', ''E'', ''G#'']" by code_simp
  have b: "truthy (map_of (selected st_prompted) ''C'')" by (simp add: st_prompted_def)
  have c: "selectedPitchClasses st_single = [''E'']" by code_simp
  have d: "truthy (map_of (selected st_single) ''E'')"
    by (simp add: st_single_def st_prompted_def)
  have e: "currentNote st_prompted \<noteq> None" by (simp add: st_prompted_def)
  from toggle_ends_round [of st_prompted "''C''"] toggle_ends_round [of st_single "''E''"]
    a b c d e
  show ?thesis by simp
qed

section \<open>The window of recent notes\<close>

lemma selected_prompted: "selectedPitchClasses st_prompted = [''C'', ''E'', ''G#'']"
  by code_simp

lemma nearest_C_64: "nearestMidiForPitchClass ''C'' 64 = Some \<lparr> midi = 60, pitchClass = ''C'', octave = 4 \<rparr>"
  by code_simp

lemma nearest_all_64:
  "nearestByPitchClass [''C'', ''E'', ''G#''] 64 =
     [(''C'', \<lparr> midi = 60, pitchClass = ''C'', octave = 4 \<rparr>),
      (''E'', \<lparr> midi = 64, pitchClass = ''E'', octave = 4 \<rparr>),
      (''G#'', \<lparr> midi = 68, pitchClass = ''G#'', octave = 4 \<rparr>)]"
  by code_simp

lemma initial_to_prompted: "onPlayNew (1 / 2) (1 / 2) 0 (7 / 8) st_initial = st_prompted"
proof -
  have sel: "selectedPitchClasses st_initial = [''C'', ''E'', ''G#'']" by code_simp
  have prev: "prevPitchClassOf st_initial = None"
    by (simp add: prevPitchClassOf_def st_initial_def str_or_def)
  have pick: "pickTarget (1 / 2) (1 / 2) [''C'', ''E'', ''G#''] [] None =
      Some \<lparr> midi = 64, pitchClass = ''E'', octave = 4 \<rparr>" by code_simp
  have inst: "pickRandom (7 / 8) INSTRUMENTS = Some ''tuba''" by code_simp
  have f: "lastPlayed st_initial = []" "nextInstrument st_initial = Some ''koto''"
    "played st_initial = []"
    by (simp_all add: st_initial_def)
  have "onPlayNew (1 / 2) (1 / 2) 0 (7 / 8) st_initial =
      st_initial\<lparr> postGuess := False, lastGuessLetter := None, lastGuessCorrect := None,
                  nearestMap := None,
                  currentNote := Some \<lparr> midi = 64, pitchClass = ''E'', octave = 4,
                                         instrument = Some ''koto'' \<rparr>,
                  lastPlayed := push_last3 [] 64,
                  nextInstrument := Some ''tuba'',
                  played := [(Some ''koto'', ''E'', 4)] \<rparr>"
    by (simp add: onPlayNew_def sel prev f pick inst str_or_def pitch.defs Let_def)
  then show ?thesis
    by (simp add: st_initial_def st_prompted_def push_last3_def)
qed

lemma prompted_to_guessed: "guessClick 0 1000 ''C'' st_prompted = Inr st_guessed"
proof -
  define cur :: target where
    "cur = \<lparr> midi = 64, pitchClass = ''E'', octave = 4, instrument = Some ''koto'' \<rparr>"
  define s1 where "s1 = st_prompted\<lparr> lastPlayed := push_last3 [64] 60,
                            played := [(Some ''koto'', ''E'', 4), (Some ''koto'', ''C'', 4)] \<rparr>"
  have c0: "currentNote st_prompted = Some cur" "\<not> postGuess st_prompted"
    "lastPlayed st_prompted = [64]" "played st_prompted = [(Some ''koto'', ''E'', 4)]"
    "localStorage st_prompted = Map.empty"
    by (simp_all add: st_prompted_def cur_def)
  have m: "midi cur = 64" "instrument cur = Some ''koto''" "pitchClass cur = ''E''"
    by (simp_all add: cur_def)
  have step1: "guessClick 0 1000 ''C'' st_prompted = onGuess 1000 ''C'' s1"
    by (simp add: guessClick_def c0 m nearest_C_64 str_or_def Let_def s1_def)
  have c1: "currentNote s1 = Some cur" "localStorage s1 = Map.empty"
    by (simp_all add: s1_def c0)
  have sel1: "selectedPitchClasses s1 = [''C'', ''E'', ''G#'']"
    using selected_prompted by (simp add: selectedPitchClasses_def s1_def)
  have rec: "recordGuess Map.empty 1000 cur ''C'' =
      Inr (saveHistory Map.empty (JArr [guessEvent 1000 cur ''C'']), False)"
    by (simp add: recordGuess_def loadHistory_def getItem_def m)
  have step2: "onGuess 1000 ''C'' s1 =
      Inr (s1\<lparr> localStorage := saveHistory Map.empty (JArr [guessEvent 1000 cur ''C'']),
               lastGuessLetter := Some ''C'', lastGuessCorrect := Some False,
               nearestMap := Some (nearestByPitchClass [''C'', ''E'', ''G#''] 64),
               postGuess := True \<rparr>)"
    by (simp add: onGuess_def c1 rec sel1 m)
  show ?thesis
    unfolding step1 step2 nearest_all_64
    by (simp add: s1_def st_guessed_def st_prompted_def guessEvent_def cur_def push_last3_def)
qed

lemma length_push_last3: "length (push_last3 xs m) = min 3 (Suc (length xs))"
  by (simp add: push_last3_def Let_def)

lemma push_last3_short: "length xs < 3 \<Longrightarrow> push_last3 xs m = xs @ [m]"
  by (simp add: push_last3_def Let_def)

lemma push_last3_full: "length xs = 3 \<Longrightarrow> push_last3 xs m = tl xs @ [m]"
  by (cases xs) (simp_all add: push_last3_def Let_def)

lemma onPlayNew_window:
  assumes "pickTarget u1 u2 (selectedPitchClasses st) (lastPlayed st) (prevPitchClassOf st) = Some t"
  shows "lastPlayed (onPlayNew u1 u2 u3 u4 st) = push_last3 (lastPlayed st) (midi t)"
    and "played (onPlayNew u1 u2 u3 u4 st) =
           played st @ [(str_or (nextInstrument st) (pickRandom u3 INSTRUMENTS), pitchClass t, octave t)]"
  using assms by (simp_all add: onPlayNew_def Let_def)

lemma first_guess_window:
  assumes "\<not> postGuess st" "currentNote st = Some cur"
    "nearestMidiForPitchClass pc (midi cur) = Some n" "guessClick u now pc st = Inr st'"
  shows "lastPlayed st' = push_last3 (lastPlayed st) (midi n)"
    and "played st' = played st @ [(str_or (instrument cur) (pickRandom u INSTRUMENTS), pitchClass n, octave n)]"
  using assms
  by (auto simp: guessClick_def onGuess_def Let_def split: sum.splits prod.splits)

lemma preview_window:
  assumes "postGuess st" "nearestMap st = Some nm" "map_of nm pc = Some p"
  shows "\<exists>st'. guessClick u now pc st = Inr st' \<and>
           lastPlayed st' = push_last3 (lastPlayed st) (midi p) \<and>
           played st' = played st @
             [(str_or (case currentNote st of Some cur \<Rightarrow> instrument cur | None \<Rightarrow> None)
                      (pickRandom u INSTRUMENTS),
               fst (pitchFromMidi (midi p)), snd (pitchFromMidi (midi p)))]"
  using assms by (simp add: guessClick_def Let_def)

lemma replay_window:
  assumes "currentNote st = Some cur"
  shows "lastPlayed (onReplay u st) = lastPlayed st"
    and "played (onReplay u st) =
           played st @ [(str_or (instrument cur) (pickRandom u INSTRUMENTS), pitchClass cur, octave cur)]"
  using assms by (simp_all add: onReplay_def Let_def)

lemma window_bound:
  assumes "length (lastPlayed st) \<le> 3"
  shows "length (lastPlayed (onPlayNew u1 u2 u3 u4 st)) \<le> 3"
    and "length (lastPlayed (onReplay u st)) \<le> 3"
    and "length (lastPlayed (onToggle pc st)) \<le> 3"
    and "guessClick u now pc st = Inr st' \<Longrightarrow> length (lastPlayed st') \<le> 3"
proof -
  show "length (lastPlayed (onPlayNew u1 u2 u3 u4 st)) \<le> 3"
    using assms by (simp add: onPlayNew_def Let_def length_push_last3 split: option.splits)
  show "length (lastPlayed (onReplay u st)) \<le> 3"
    using assms by (simp add: onReplay_def Let_def split: option.splits)
  show "length (lastPlayed (onToggle pc st)) \<le> 3"
    using assms by (simp add: onToggle_def Let_def resetRound_def)
  show "guessClick u now pc st = Inr st' \<Longrightarrow> length (lastPlayed st') \<le> 3"
    using assms
    by (auto simp: guessClick_def onGuess_def Let_def length_push_last3
          split: option.splits sum.splits prod.splits if_splits)
qed

lemma pick_after_guess:
  "pickTarget (1/2) (1/2) (selectedPitchClasses st_guessed) (lastPlayed st_guessed)
     (prevPitchClassOf st_guessed) = Some \<lparr> midi = 76, pitchClass = ''E'', octave = 5 \<rparr>"
  by code_simp

text \<open>
  C5, as amended. A newly selected target, the note played for the first guess and a note
  previewed after the guess are each played and pushed into the window of recent notes;
  the preview of the pitch class of the current note pushes that note once more. The replay
  of the current note before the guess plays it and leaves the window as it is. A push
  keeps the last three entries: it appends to a window of fewer than three and drops the
  oldest entry of a window of three, so no handler makes the window longer than three.
\<close>

theorem window_pushes:
  "(\<forall>t. pickTarget u1 u2 (selectedPitchClasses st) (lastPlayed st) (prevPitchClassOf st) = Some t \<longrightarrow>
      lastPlayed (onPlayNew u1 u2 u3 u4 st) = push_last3 (lastPlayed st) (midi t) \<and>
      played (onPlayNew u1 u2 u3 u4 st) =
        played st @ [(str_or (nextInstrument st) (pickRandom u3 INSTRUMENTS), pitchClass t, octave t)]) \<and>
   (\<forall>cur n st'. \<not> postGuess st \<and> currentNote st = Some cur \<and>
        nearestMidiForPitchClass pc (midi cur) = Some n \<and> guessClick u now pc st = Inr st' \<longrightarrow>
      lastPlayed st' = push_last3 (lastPlayed st) (midi n) \<and>
      played st' =
        played st @ [(str_or (instrument cur) (pickRandom u INSTRUMENTS), pitchClass n, octave n)]) \<and>
   (\<forall>nm p. postGuess st \<and> nearestMap st = Some nm \<and> map_of nm pc = Some p \<longrightarrow>
      (\<exists>st'. guessClick u now pc st = Inr st' \<and>
         lastPlayed st' = push_last3 (lastPlayed st) (midi p) \<and>
         played st' = played st @
           [(str_or (case currentNote st of Some cur \<Rightarrow> instrument cur | None \<Rightarrow> None)
                    (pickRandom u INSTRUMENTS),
             fst (pitchFromMidi (midi p)), snd (pitchFromMidi (midi p)))])) \<and>
   (\<forall>cur. currentNote st = Some cur \<longrightarrow>
      lastPlayed (onReplay u st) = lastPlayed st \<and>
      played (onReplay u st) =
        played st @ [(str_or (instrument cur) (pickRandom u INSTRUMENTS), pitchClass cur, octave cur)]) \<and>
   length (push_last3 xs m) \<le> 3 \<and>
   (length xs < 3 \<longrightarrow> push_last3 xs m = xs @ [m]) \<and>
   (length xs = 3 \<longrightarrow> push_last3 xs m = tl xs @ [m]) \<and>
   (length (lastPlayed st) \<le> 3 \<longrightarrow>
      length (lastPlayed (onPlayNew u1 u2 u3 u4 st)) \<le> 3 \<and>
      length (lastPlayed (onReplay u st)) \<le> 3 \<and>
      length (lastPlayed (onToggle pc st)) \<le> 3 \<and>
      (\<forall>st'. guessClick u now pc st = Inr st' \<longrightarrow> length (lastPlayed st') \<le> 3))"
proof (intro conjI allI impI)
  fix t
  assume "pickTarget u1 u2 (selectedPitchClasses st) (lastPlayed st) (prevPitchClassOf st) = Some t"
  then show "lastPlayed (onPlayNew u1 u2 u3 u4 st) = push_last3 (lastPlayed st) (midi t)"
    and "played (onPlayNew u1 u2 u3 u4 st) =
        played st @ [(str_or (nextInstrument st) (pickRandom u3 INSTRUMENTS), pitchClass t, octave t)]"
    by (rule onPlayNew_window)+
next
  fix cur n st'
  assume h: "\<not> postGuess st \<and> currentNote st = Some cur \<and>
        nearestMidiForPitchClass pc (midi cur) = Some n \<and> guessClick u now pc st = Inr st'"
  then show "lastPlayed st' = push_last3 (lastPlayed st) (midi n)"
    by (intro first_guess_window [of st cur pc n u now st']) simp_all
  from h show "played st' =
        played st @ [(str_or (instrument cur) (pickRandom u INSTRUMENTS), pitchClass n, octave n)]"
    by (intro first_guess_window [of st cur pc n u now st']) simp_all
next
  fix nm p
  assume "postGuess st \<and> nearestMap st = Some nm \<and> map_of nm pc = Some p"
  then have "postGuess st" "nearestMap st = Some nm" "map_of nm pc = Some p" by simp_all
  then show "\<exists>st'. guessClick u now pc st = Inr st' \<and>
         lastPlayed st' = push_last3 (lastPlayed st) (midi p) \<and>
         played st' = played st @
           [(str_or (case currentNote st of Some cur \<Rightarrow> instrument cur | None \<Rightarrow> None)
                    (pickRandom u INSTRUMENTS),
             fst (pitchFromMidi (midi p)), snd (pitchFromMidi (midi p)))]"
    by (rule preview_window)
next
  fix cur
  assume "currentNote st = Some cur"
  then show "lastPlayed (onReplay u st) = lastPlayed st"
    and "played (onReplay u st) =
        played st @ [(str_or (instrument cur) (pickRandom u INSTRUMENTS), pitchClass cur, octave cur)]"
    by (rule replay_window)+
next
  show "length (push_last3 xs m) \<le> 3" by (simp add: length_push_last3)
next
  assume "length xs < 3"
  then show "push_last3 xs m = xs @ [m]" by (rule push_last3_short)
next
  assume "length xs = 3"
  then show "push_last3 xs m = tl xs @ [m]" by (rule push_last3_full)
next
  assume b: "length (lastPlayed st) \<le> 3"
  then show "length (lastPlayed (onPlayNew u1 u2 u3 u4 st)) \<le> 3"
    and "length (lastPlayed (onReplay u st)) \<le> 3"
    and "length (lastPlayed (onToggle pc st)) \<le> 3"
    by (rule window_bound)+
  fix st' assume "guessClick u now pc st = Inr st'"
  with b show "length (lastPlayed st') \<le> 3" by (rule window_bound)
qed

theorem window_pushes_witness:
  "\<not> postGuess st_prompted \<and>
   nearestMidiForPitchClass ''C'' 64 = Some \<lparr> midi = 60, pitchClass = ''C'', octave = 4 \<rparr> \<and>
   guessClick 0 1000 ''C'' st_prompted = Inr st_guessed \<and>
   lastPlayed st_prompted = [64] \<and> lastPlayed st_guessed = [64, 60] \<and>
   push_last3 [64] 60 = [64, 60] \<and>
   postGuess st_guessed \<and>
   (\<exists>st'. guessClick 0 2000 ''E'' st_guessed = Inr st' \<and> lastPlayed st' = [64, 60, 64]) \<and>
   lastPlayed (onPlayNew (1/2) (1/2) 0 0 st_guessed) = [64, 60, 76] \<and>
   lastPlayed (onReplay 0 st_prompted) = [64] \<and>
   push_last3 [64, 60, 76] 48 = [60, 76, 48]"
proof -
  have c: "currentNote st_prompted =
      Some \<lparr> midi = 64, pitchClass = ''E'', octave = 4, instrument = Some ''koto'' \<rparr>"
    "\<not> postGuess st_prompted" "lastPlayed st_prompted = [64]"
    by (simp_all add: st_prompted_def)
  have g: "postGuess st_guessed" "lastPlayed st_guessed = [64, 60]"
    "nearestMap st_guessed =
       Some [(''C'', \<lparr> midi = 60, pitchClass = ''C'', octave = 4 \<rparr>),
             (''E'', \<lparr> midi = 64, pitchClass = ''E'', octave = 4 \<rparr>),
             (''G#'', \<lparr> midi = 68, pitchClass = ''G#'', octave = 4 \<rparr>)]"
    by (simp_all add: st_guessed_def)
  have p: "push_last3 [64] 60 = [64, 60]" "push_last3 [64, 60] 64 = [64, 60, 64]"
    "push_last3 [64, 60] 76 = [64, 60, 76]" "push_last3 [64, 60, 76] 48 = [60, 76, 48]"
    by (simp_all add: push_last3_def)
  from window_pushes [of "1/2" "1/2" st_guessed 0 0 "''E''" 0 2000 "[64, 60, 76]" 48]
    pick_after_guess g p
  have w1: "(\<exists>st'. guessClick 0 2000 ''E'' st_guessed = Inr st' \<and> lastPlayed st' = [64, 60, 64])"
    and w2: "lastPlayed (onPlayNew (1/2) (1/2) 0 0 st_guessed) = [64, 60, 76]"
    by auto
  from window_pushes [of 0 0 st_prompted 0 0 "''C''" 0 1000 "[64]" 60] c
  have w3: "lastPlayed (onReplay 0 st_prompted) = [64]" by simp
  from c g p w1 w2 w3 nearest_C_64 prompted_to_guessed show ?thesis by simp
qed

text \<open>
  The replay of the note that awaits its guess plays E4 once more, and the window of recent
  notes is \<open>[64]\<close> before and after: the replayed note is not pushed.
\<close>

theorem replay_does_not_push:
  "currentNote st_prompted =
     Some \<lparr> midi = 64, pitchClass = ''E'', octave = 4, instrument = Some ''koto'' \<rparr> \<and>
   playClick 0 0 0 0 st_prompted = onReplay 0 st_prompted \<and>
   played st_prompted = [(Some ''koto'', ''E'', 4)] \<and>
   played (onReplay 0 st_prompted) = [(Some ''koto'', ''E'', 4), (Some ''koto'', ''E'', 4)] \<and>
   lastPlayed st_prompted = [64] \<and>
   lastPlayed (onReplay 0 st_prompted) = [64] \<and>
   push_last3 [64] 64 = [64, 64]"
  by (simp add: st_prompted_def playClick_def onReplay_def str_or_def push_last3_def)

section \<open>Target selection: the draw of the pitch class and of the note\<close>

lemma selected_distinct: "distinct (selectedPitchClasses st)"
  by (simp add: selectedPitchClasses_def distinct_PITCH_CLASSES)

lemma selected_subset: "set (selectedPitchClasses st) \<subseteq> set PITCH_CLASSES"
  by (auto simp: selectedPitchClasses_def)

lemma selected_labels: "[] \<notin> set (selectedPitchClasses st)"
  using selected_subset [of st] by (auto simp: PITCH_CLASSES_def)

lemma pickRandom_Some:
  assumes "xs \<noteq> []" "0 \<le> u" "u < 1"
  shows "pickRandom u xs = Some (xs ! nat \<lfloor>u * real (length xs)\<rfloor>)"
    and "nat \<lfloor>u * real (length xs)\<rfloor> < length xs"
proof -
  have pos: "0 < real (length xs)" using assms(1) by simp
  have lo: "0 \<le> u * real (length xs)" using assms(2) by simp
  have hi: "u * real (length xs) < real (length xs)" using assms(3) pos by simp
  from lo have f0: "0 \<le> \<lfloor>u * real (length xs)\<rfloor>" by simp
  from hi have f1: "\<lfloor>u * real (length xs)\<rfloor> < int (length xs)"
    by (simp add: floor_less_iff)
  from f0 f1 show "pickRandom u xs = Some (xs ! nat \<lfloor>u * real (length xs)\<rfloor>)"
    by (simp add: pickRandom_def Let_def)
  from f0 f1 show "nat \<lfloor>u * real (length xs)\<rfloor> < length xs" by linarith
qed

lemma weighted_loop_mem: "weighted_loop r ps = Some x \<Longrightarrow> x \<in> fst ` set ps"
  by (induction ps arbitrary: r) (auto split: if_splits)

lemma weighted_loop_total:
  "ps \<noteq> [] \<Longrightarrow> r \<le> sum_list (map snd ps) \<Longrightarrow> weighted_loop r ps \<noteq> None"
proof (induction ps arbitrary: r)
  case Nil
  then show ?case by simp
next
  case (Cons p ps)
  show ?case
  proof (cases "r - snd p \<le> 0")
    case True
    then show ?thesis by simp
  next
    case False
    with Cons.prems(2) have le: "r - snd p \<le> sum_list (map snd ps)" by simp
    with False have "ps \<noteq> []" by auto
    from Cons.IH [OF this le] False show ?thesis by simp
  qed
qed

lemma weighted_loop_index:
  "distinct (map fst ps) \<Longrightarrow> \<forall>p \<in> set ps. 0 < snd p \<Longrightarrow> i < length ps \<Longrightarrow>
   weighted_loop r ps = Some (fst (ps ! i)) \<longleftrightarrow>
     (i = 0 \<or> sum_list (map snd (take i ps)) < r) \<and> r \<le> sum_list (map snd (take (Suc i) ps))"
proof (induction ps arbitrary: r i)
  case Nil
  then show ?case by simp
next
  case (Cons p ps)
  have wp: "0 < snd p" using Cons.prems(2) by simp
  show ?case
  proof (cases i)
    case 0
    have "weighted_loop (r - snd p) ps \<noteq> Some (fst p)"
      using weighted_loop_mem [of "r - snd p" ps "fst p"] Cons.prems(1) by auto
    then show ?thesis using 0 by simp
  next
    case (Suc j)
    with Cons.prems have j: "j < length ps" and d: "distinct (map fst ps)"
      and w: "\<forall>p \<in> set ps. 0 < snd p" by simp_all
    have "ps ! j \<in> set ps" using j by simp
    then have "fst (ps ! j) \<in> fst ` set ps" by (rule imageI)
    moreover from Cons.prems(1) have "fst p \<notin> fst ` set ps" by simp
    ultimately have ne: "fst p \<noteq> fst (ps ! j)" by metis
    have nn: "0 \<le> sum_list (map snd (take j ps))"
      using w by (intro sum_list_nonneg) (auto dest!: in_set_takeD simp: less_imp_le)
    show ?thesis
    proof (cases "r - snd p \<le> 0")
      case True
      then have "\<not> (snd p + sum_list (map snd (take j ps)) < r)" using nn by linarith
      with True ne show ?thesis by (simp add: Suc)
    next
      case False
      then have "weighted_loop r (p # ps) = weighted_loop (r - snd p) ps" by simp
      moreover from Cons.IH [OF d w j, of "r - snd p"]
      have "weighted_loop (r - snd p) ps = Some (fst (ps ! j)) \<longleftrightarrow>
        (j = 0 \<or> sum_list (map snd (take j ps)) < r - snd p) \<and>
        r - snd p \<le> sum_list (map snd (take (Suc j) ps))" .
      ultimately show ?thesis using False by (auto simp: Suc)
    qed
  qed
qed

lemma foldl_plus_real: "foldl (+) (a::real) xs = a + sum_list xs"
  by (induction xs arbitrary: a) simp_all

lemma weight_sum:
  "distinct xs \<Longrightarrow>
   sum_list (map (\<lambda>pc. if pc = p then 1 / 2 else (1::real)) xs) =
     real (length xs) - (if p \<in> set xs then 1 / 2 else 0)"
  by (induction xs) auto


lemma choose_weighted_loop:
  assumes d: "distinct sel" and lab: "[] \<notin> set sel"
    and p: "p \<noteq> []" "p \<in> set sel" "1 < length sel" and u: "0 \<le> u" "u < 1"
  shows "choosePitchClass u sel (Some p) =
           weighted_loop (u * (real (length sel) - 1 / 2))
             (zip sel (map (\<lambda>pc. if pc = p then 1 / 2 else 1) sel))"
    and "weighted_loop (u * (real (length sel) - 1 / 2))
             (zip sel (map (\<lambda>pc. if pc = p then 1 / 2 else 1) sel)) \<noteq> None"
proof -
  let ?W = "map (\<lambda>pc. if pc = p then 1 / 2 else (1::real)) sel"
  let ?ps = "zip sel ?W"
  let ?T = "real (length sel) - 1 / 2"
  have total: "foldl (+) 0 ?W = ?T"
    using weight_sum [OF d, of p] p(2) by (simp add: foldl_plus_real)
  have Tpos: "0 < ?T" using p(3) by simp
  have snd_ps: "map snd ?ps = ?W" by simp
  have "u * ?T \<le> ?T" using u Tpos by (simp add: mult_left_le_one_le)
  then have le: "u * ?T \<le> sum_list (map snd ?ps)"
    unfolding snd_ps using total by (simp add: foldl_plus_real)
  have ne: "?ps \<noteq> []" using p(3) by (cases sel) auto
  from weighted_loop_total [OF ne le] show some: "weighted_loop (u * ?T) ?ps \<noteq> None" .
  then obtain x where x: "weighted_loop (u * ?T) ?ps = Some x" by auto
  from weighted_loop_mem [OF x] have "x \<in> set sel" by (auto dest: set_zip_leftD)
  with lab have "x \<noteq> []" by auto
  then have "str_or (weighted_loop (u * ?T) ?ps) (Some (last sel)) = weighted_loop (u * ?T) ?ps"
    by (simp add: x str_or_def)
  then show "choosePitchClass u sel (Some p) = weighted_loop (u * ?T) ?ps"
    using p by (simp add: choosePitchClass_def Let_def total str_truthy_def)
qed

lemma choose_weighted:
  assumes d: "distinct sel" and lab: "[] \<notin> set sel"
    and p: "p \<noteq> []" "p \<in> set sel" "1 < length sel" and u: "0 \<le> u" "u < 1"
    and i: "i < length sel"
  shows "choosePitchClass u sel (Some p) = Some (sel ! i) \<longleftrightarrow>
           (i = 0 \<or> real i - (if p \<in> set (take i sel) then 1 / 2 else 0) < u * (real (length sel) - 1 / 2)) \<and>
           u * (real (length sel) - 1 / 2) \<le>
             real i - (if p \<in> set (take i sel) then 1 / 2 else 0) + (if sel ! i = p then 1 / 2 else 1)"
proof -
  let ?w = "\<lambda>pc. if pc = p then 1 / 2 else (1::real)"
  let ?W = "map ?w sel"
  let ?ps = "zip sel ?W"
  let ?T = "real (length sel) - 1 / 2"
  have fst_ps: "map fst ?ps = sel" by simp
  have dps: "distinct (map fst ?ps)" using d by simp
  have wps: "\<forall>q \<in> set ?ps. 0 < snd q" by (auto simp: set_zip)
  have ips: "i < length ?ps" using i by simp
  have nth: "fst (?ps ! i) = sel ! i" using i by simp
  have tk: "map snd (take k ?ps) = map ?w (take k sel)" for k
    by (simp add: take_zip take_map)
  have s_i: "sum_list (map snd (take i ?ps)) = real i - (if p \<in> set (take i sel) then 1 / 2 else 0)"
    unfolding tk using weight_sum [of "take i sel" p] d i by (simp add: min_def)
  have s_Suc: "sum_list (map snd (take (Suc i) ?ps)) =
      real i - (if p \<in> set (take i sel) then 1 / 2 else 0) + ?w (sel ! i)"
    unfolding tk using s_i [unfolded tk] i by (simp add: take_Suc_conv_app_nth)
  from weighted_loop_index [OF dps wps ips, of "u * ?T"]
  have "weighted_loop (u * ?T) ?ps = Some (sel ! i) \<longleftrightarrow>
      (i = 0 \<or> sum_list (map snd (take i ?ps)) < u * ?T) \<and>
      u * ?T \<le> sum_list (map snd (take (Suc i) ?ps))"
    unfolding nth .
  then show ?thesis
    unfolding choose_weighted_loop(1) [OF d lab p u] s_i s_Suc .
qed

lemma choose_uniform:
  assumes d: "distinct sel" and u: "0 \<le> u" "u < 1" and i: "i < length sel"
    and c: "\<not> (\<exists>p. prev = Some p \<and> p \<noteq> [] \<and> p \<in> set sel \<and> 1 < length sel)"
  shows "choosePitchClass u sel prev = Some (sel ! i) \<longleftrightarrow>
           real i \<le> u * real (length sel) \<and> u * real (length sel) < real i + 1"
proof -
  from i have ne: "sel \<noteq> []" by auto
  from c have "choosePitchClass u sel prev = pickRandom u sel"
    by (cases prev) (auto simp: choosePitchClass_def str_truthy_def)
  also have "\<dots> = Some (sel ! nat \<lfloor>u * real (length sel)\<rfloor>)"
    using ne u by (rule pickRandom_Some)
  finally have eq: "choosePitchClass u sel prev = Some (sel ! nat \<lfloor>u * real (length sel)\<rfloor>)" .
  have k: "nat \<lfloor>u * real (length sel)\<rfloor> < length sel" using ne u by (rule pickRandom_Some)
  have nn: "0 \<le> \<lfloor>u * real (length sel)\<rfloor>" using u by simp
  have "sel ! nat \<lfloor>u * real (length sel)\<rfloor> = sel ! i \<longleftrightarrow> nat \<lfloor>u * real (length sel)\<rfloor> = i"
    using d k i by (simp add: nth_eq_iff_index_eq)
  also have "\<dots> \<longleftrightarrow> \<lfloor>u * real (length sel)\<rfloor> = int i" using nn by linarith
  also have "\<dots> \<longleftrightarrow> real i \<le> u * real (length sel) \<and> u * real (length sel) < real i + 1"
    by (simp add: floor_eq_iff)
  finally show ?thesis unfolding eq by simp
qed


text \<open>
  C6. Let \<open>sel\<close> be the selected pitch classes, \<open>n\<close> their number and \<open>u\<close> the random draw.
  When the previous pitch class \<open>p\<close> is set and selected and \<open>n > 1\<close>, the draw is weighted:
  the class at position \<open>i\<close> is chosen exactly when \<open>u\<close> lies in the interval that starts at
  the sum of the weights before \<open>i\<close>, divided by the total weight \<open>n - 1/2\<close>, and whose length
  is the weight of the class divided by the total: \<open>(1/2) / (n - 1/2)\<close> for \<open>p\<close> and
  \<open>1 / (n - 1/2)\<close> for every other class. In every other case the class at position \<open>i\<close> is
  chosen exactly when \<open>i / n \<le> u < i / n + 1 / n\<close>. Under a uniform draw the length of the
  interval is the probability of the class.
\<close>

theorem pitch_class_draw:
  assumes sel: "sel = selectedPitchClasses st" and u: "0 \<le> u" "u < 1" and i: "i < length sel"
  shows
    "(p \<noteq> [] \<and> p \<in> set sel \<and> 1 < length sel \<longrightarrow>
        (choosePitchClass u sel (Some p) = Some (sel ! i) \<longleftrightarrow>
           (i = 0 \<or> (real i - (if p \<in> set (take i sel) then 1 / 2 else 0)) / (real (length sel) - 1 / 2) < u) \<and>
           u \<le> (real i - (if p \<in> set (take i sel) then 1 / 2 else 0)) / (real (length sel) - 1 / 2)
                 + (if sel ! i = p then 1 / 2 else 1) / (real (length sel) - 1 / 2))) \<and>
     (\<not> (\<exists>q. prev = Some q \<and> q \<noteq> [] \<and> q \<in> set sel \<and> 1 < length sel) \<longrightarrow>
        (choosePitchClass u sel prev = Some (sel ! i) \<longleftrightarrow>
           real i / real (length sel) \<le> u \<and> u < real i / real (length sel) + 1 / real (length sel)))"
proof (intro conjI impI)
  assume "p \<noteq> [] \<and> p \<in> set sel \<and> 1 < length sel"
  then have p: "p \<noteq> []" "p \<in> set sel" "1 < length sel" by simp_all
  have d: "distinct sel" and lab: "[] \<notin> set sel"
    unfolding sel by (rule selected_distinct, rule selected_labels)
  let ?T = "real (length sel) - 1 / 2"
  let ?c = "real i - (if p \<in> set (take i sel) then 1 / 2 else 0)"
  let ?w = "(if sel ! i = p then 1 / 2 else (1::real))"
  have T: "0 < ?T" using p(3) by simp
  have a: "?c / ?T < u \<longleftrightarrow> ?c < u * ?T" using T by (simp add: pos_divide_less_eq)
  have "?c / ?T + ?w / ?T = (?c + ?w) / ?T" by (simp add: add_divide_distrib)
  then have b: "u \<le> ?c / ?T + ?w / ?T \<longleftrightarrow> u * ?T \<le> ?c + ?w"
    using T by (simp add: pos_le_divide_eq)
  show "choosePitchClass u sel (Some p) = Some (sel ! i) \<longleftrightarrow>
           (i = 0 \<or> ?c / ?T < u) \<and> u \<le> ?c / ?T + ?w / ?T"
    unfolding a b by (rule choose_weighted [OF d lab p u i])
next
  assume c: "\<not> (\<exists>q. prev = Some q \<and> q \<noteq> [] \<and> q \<in> set sel \<and> 1 < length sel)"
  have d: "distinct sel" unfolding sel by (rule selected_distinct)
  let ?n = "real (length sel)"
  from i have "0 < length sel" by linarith
  then have n: "0 < ?n" by simp
  have a: "real i / ?n \<le> u \<longleftrightarrow> real i \<le> u * ?n" using n by (simp add: pos_divide_le_eq)
  have "real i / ?n + 1 / ?n = (real i + 1) / ?n" by (simp add: add_divide_distrib)
  then have b: "u < real i / ?n + 1 / ?n \<longleftrightarrow> u * ?n < real i + 1"
    using n by (simp add: pos_less_divide_eq)
  show "choosePitchClass u sel prev = Some (sel ! i) \<longleftrightarrow>
           real i / ?n \<le> u \<and> u < real i / ?n + 1 / ?n"
    unfolding a b by (rule choose_uniform [OF d u i c])
qed

lemma choose_in_sel:
  assumes "sel \<noteq> []" "[] \<notin> set sel" "0 \<le> u" "u < 1"
  shows "\<exists>pc \<in> set sel. choosePitchClass u sel prev = Some pc"
proof (cases "str_truthy prev \<and> length sel > 1 \<and> the prev \<in> set sel")
  case True
  let ?W = "map (\<lambda>pc. if pc = the prev then 1 / 2 else (1::real)) sel"
  let ?r = "u * foldl (+) 0 ?W"
  have eq: "choosePitchClass u sel prev = str_or (weighted_loop ?r (zip sel ?W)) (Some (last sel))"
    using True by (simp add: choosePitchClass_def Let_def)
  show ?thesis
  proof (cases "weighted_loop ?r (zip sel ?W)")
    case None
    then show ?thesis using assms(1) by (simp add: eq str_or_def)
  next
    case (Some x)
    from weighted_loop_mem [OF Some] have "x \<in> set sel" by (auto dest: set_zip_leftD)
    moreover with assms(2) have "x \<noteq> []" by auto
    ultimately show ?thesis by (simp add: eq Some str_or_def)
  qed
next
  case False
  have "choosePitchClass u sel prev = pickRandom u sel"
    unfolding choosePitchClass_def by (simp only: if_not_P [OF False])
  with pickRandom_Some [OF assms(1,3,4)] show ?thesis by simp
qed

text \<open>
  C2. With random draws in \<open>[0, 1)\<close>, \<open>pickTarget\<close> returns \<open>null\<close> exactly when no pitch
  class is selected. The note it returns has the pitch class that was drawn and one of the
  valid MIDI numbers of that class. When every valid number of the class is among the
  recent notes, the number is the one at the position \<open>floor (u2 * length)\<close> of the unfiltered
  candidates; otherwise it is not among the recent notes, and is picked in the same way
  from the candidates that are not.
\<close>

theorem pickTarget_avoids_recent:
  assumes sel: "sel = selectedPitchClasses st"
    and u1: "0 \<le> u1" "u1 < 1" and u2: "0 \<le> u2" "u2 < 1"
  shows
    "(pickTarget u1 u2 sel excludeMidis prev = None \<longleftrightarrow> sel = []) \<and>
     (\<forall>t. pickTarget u1 u2 sel excludeMidis prev = Some t \<longrightarrow>
        choosePitchClass u1 sel prev = Some (pitchClass t) \<and>
        pitchClass t \<in> set sel \<and>
        midi t \<in> set (validMidisForPitchClass (pitchClass t)) \<and>
        octave t = snd (pitchFromMidi (midi t)) \<and>
        (if set (validMidisForPitchClass (pitchClass t)) \<subseteq> set excludeMidis
         then midi t = validMidisForPitchClass (pitchClass t) !
                nat \<lfloor>u2 * real (length (validMidisForPitchClass (pitchClass t)))\<rfloor>
         else midi t \<notin> set excludeMidis \<and>
              Some (midi t) =
                pickRandom u2 (filter (\<lambda>m. m \<notin> set excludeMidis)
                                 (validMidisForPitchClass (pitchClass t)))))"
proof (cases "sel = []")
  case True
  then show ?thesis by (simp add: pickTarget_def)
next
  case False
  have lab: "[] \<notin> set sel" and sub: "set sel \<subseteq> set PITCH_CLASSES"
    unfolding sel by (rule selected_labels, rule selected_subset)
  from choose_in_sel [OF False lab u1] obtain pc where
    pc: "pc \<in> set sel" "choosePitchClass u1 sel prev = Some pc" by blast
  let ?cands = "validMidisForPitchClass pc"
  let ?filtered = "filter (\<lambda>m. m \<notin> set excludeMidis) ?cands"
  let ?pool = "if ?filtered \<noteq> [] then ?filtered else ?cands"
  have cne: "?cands \<noteq> []" using pc(1) sub by (intro valid_nonempty) auto
  then have pne: "?pool \<noteq> []" by simp
  let ?k = "nat \<lfloor>u2 * real (length ?pool)\<rfloor>"
  from pickRandom_Some [OF pne u2]
  have pick: "pickRandom u2 ?pool = Some (?pool ! ?k)" and k: "?k < length ?pool" by blast+
  have res: "pickTarget u1 u2 sel excludeMidis prev =
      Some \<lparr> midi = ?pool ! ?k, pitchClass = pc, octave = snd (pitchFromMidi (?pool ! ?k)) \<rparr>"
    using False cne pick by (simp add: pickTarget_def pc(2) Let_def)
  have mem: "?pool ! ?k \<in> set ?pool" using k by (rule nth_mem)
  have fe: "?filtered = [] \<longleftrightarrow> set ?cands \<subseteq> set excludeMidis"
    by (auto simp: filter_empty_conv)
  show ?thesis
  proof (cases "set ?cands \<subseteq> set excludeMidis")
    case True
    with fe have "?pool = ?cands" by simp
    with res mem pick True False pc show ?thesis by simp
  next
    case nf: False
    with fe have "?pool = ?filtered" by simp
    with res mem pick nf False pc show ?thesis by simp
  qed
qed


lemma selected_guessed: "selectedPitchClasses st_guessed = [''C'', ''E'', ''G#'']"
  by code_simp

lemma valid_E: "validMidisForPitchClass ''E'' = [52, 64, 76]"
  by code_simp

theorem pitch_class_draw_witness:
  "selectedPitchClasses st_prompted = [''C'', ''E'', ''G#''] \<and>
   (1 / 2) / (real (length [''C'', ''E'', ''G#'']) - 1 / 2) = 1 / 5 \<and>
   choosePitchClass (1 / 5) [''C'', ''E'', ''G#''] (Some ''C'') = Some ''C'' \<and>
   choosePitchClass (1 / 4) [''C'', ''E'', ''G#''] (Some ''C'') \<noteq> Some ''C'' \<and>
   choosePitchClass (1 / 2) [''C'', ''E'', ''G#''] None = Some ''E''"
proof -
  note s = selected_prompted [symmetric]
  have u: "(0::real) \<le> 1 / 5" "(1::real) / 5 < 1" "(0::real) \<le> 1 / 4" "(1::real) / 4 < 1"
    "(0::real) \<le> 1 / 2" "(1::real) / 2 < 1" by simp_all
  have i: "0 < length [''C'', ''E'', ''G#'']" "1 < length [''C'', ''E'', ''G#'']" by simp_all
  from pitch_class_draw [OF s u(1,2) i(1), of "''C''" None]
  have a: "choosePitchClass (1 / 5) [''C'', ''E'', ''G#''] (Some ''C'') = Some ''C''" by simp
  from pitch_class_draw [OF s u(3,4) i(1), of "''C''" None]
  have b: "choosePitchClass (1 / 4) [''C'', ''E'', ''G#''] (Some ''C'') \<noteq> Some ''C''" by simp
  from pitch_class_draw [OF s u(5,6) i(2), of "''C''" None]
  have c: "choosePitchClass (1 / 2) [''C'', ''E'', ''G#''] None = Some ''E''" by simp
  from a b c selected_prompted show ?thesis by simp
qed

theorem pickTarget_avoids_recent_witness:
  "selectedPitchClasses st_guessed = [''C'', ''E'', ''G#''] \<and>
   validMidisForPitchClass ''E'' = [52, 64, 76] \<and>
   pickTarget (1 / 2) (1 / 2) [''C'', ''E'', ''G#''] [64, 60] (Some ''E'') =
     Some \<lparr> midi = 76, pitchClass = ''E'', octave = 5 \<rparr> \<and>
   choosePitchClass (1 / 2) [''C'', ''E'', ''G#''] (Some ''E'') = Some ''E'' \<and>
   (76::int) \<notin> set [64, 60] \<and>
   pickTarget (1 / 2) (1 / 2) [''C'', ''E'', ''G#''] [76, 64, 52] (Some ''E'') =
     Some \<lparr> midi = 64, pitchClass = ''E'', octave = 4 \<rparr> \<and>
   set (validMidisForPitchClass ''E'') \<subseteq> set [76, 64, 52] \<and>
   pickTarget (1 / 2) (1 / 2) [] [76, 64, 52] (Some ''E'') = None"
proof -
  note s = selected_guessed [symmetric]
  have u: "(0::real) \<le> 1 / 2" "(1::real) / 2 < 1" by simp_all
  have p1: "pickTarget (1 / 2) (1 / 2) [''C'', ''E'', ''G#''] [64, 60] (Some ''E'') =
     Some \<lparr> midi = 76, pitchClass = ''E'', octave = 5 \<rparr>" by code_simp
  have p2: "pickTarget (1 / 2) (1 / 2) [''C'', ''E'', ''G#''] [76, 64, 52] (Some ''E'') =
     Some \<lparr> midi = 64, pitchClass = ''E'', octave = 4 \<rparr>" by code_simp
  have p3: "pickTarget (1 / 2) (1 / 2) [] [76, 64, 52] (Some ''E'') = None"
    by (simp add: pickTarget_def)
  from pickTarget_avoids_recent [OF s u u, of "[64, 60]" "Some ''E''"] p1 valid_E
  have a: "choosePitchClass (1 / 2) [''C'', ''E'', ''G#''] (Some ''E'') = Some ''E''"
    and b: "(76::int) \<notin> set [64, 60]" by simp_all
  from a b p1 p2 p3 valid_E selected_guessed show ?thesis by simp
qed

section \<open>Legacy events in the statistics\<close>

lemma map_of_drop_key:
  "map_of (filter (\<lambda>kv. fst kv \<noteq> k) kvs) q = (if q = k then None else map_of kvs q)"
  by (induction kvs) auto

lemma summarize_item_legacy:
  assumes "get_prop a ''pitchClass'' \<noteq> Inr (Some JNull)"
  shows "summarize_item (to_legacy a) acc = summarize_item a acc"
proof (cases a)
  case (JObj kvs)
  show ?thesis
  proof (cases "map_of kvs ''pitchClass''")
    case None
    then show ?thesis by (simp add: to_legacy_def JObj)
  next
    case (Some v)
    with assms JObj have v: "v \<noteq> JNull" by simp
    then have nc: "nullish_coalesce (Some v) b = Some v" for b by (cases v) simp_all
    show ?thesis
      by (simp add: to_legacy_def JObj Some summarize_item_def map_of_set_prop map_of_drop_key nc)
  qed
qed (simp_all add: to_legacy_def)

lemma summarize_items_legacy:
  "list_all2 (\<lambda>a b. b = a \<or> (b = to_legacy a \<and> get_prop a ''pitchClass'' \<noteq> Inr (Some JNull))) xs ys \<Longrightarrow>
   summarize_items ys acc = summarize_items xs acc"
proof (induction xs ys arbitrary: acc rule: list_all2_induct)
  case Nil
  then show ?case by simp
next
  case (Cons a xs b ys)
  from Cons.hyps(1) have "summarize_item b acc = summarize_item a acc"
    by (auto simp: summarize_item_legacy)
  with Cons.IH show ?case by (simp split: sum.splits)
qed

lemma filter_items_legacy:
  "list_all2 (\<lambda>a b. R a b \<and> f b = f a) xs ys \<Longrightarrow>
   (\<exists>e. filter_items f xs = Inl e \<and> filter_items f ys = Inl e) \<or>
   (\<exists>xs' ys'. filter_items f xs = Inr xs' \<and> filter_items f ys = Inr ys' \<and> list_all2 R xs' ys')"
proof (induction xs ys rule: list_all2_induct)
  case Nil
  then show ?case by simp
next
  case (Cons a xs b ys)
  from Cons.hyps(1) have r: "R a b" and f: "f b = f a" by simp_all
  show ?case
  proof (cases "f a")
    case (Inl e)
    then show ?thesis using f by simp
  next
    case (Inr keep)
    from Cons.IH show ?thesis
    proof
      assume "\<exists>e. filter_items f xs = Inl e \<and> filter_items f ys = Inl e"
      then show ?thesis using f Inr by auto
    next
      assume "\<exists>xs' ys'. filter_items f xs = Inr xs' \<and> filter_items f ys = Inr ys' \<and> list_all2 R xs' ys'"
      then show ?thesis using f Inr r by auto
    qed
  qed
qed

text \<open>
  C8, as amended. Let the stored history be a list, and let any of its events that have a
  \<open>pitchClass\<close> field whose value is not \<open>null\<close> be replaced by their legacy form. Then
  \<open>summarizeBy\<close> yields the same result as before, without a filter and with every filter
  that gives the same verdict on each event and its replacement (as every filter does that
  reads neither \<open>pitchClass\<close> nor \<open>letter\<close>).
\<close>

theorem legacy_read:
  assumes old: "loadHistory ls = JArr hs" and new: "loadHistory ls' = JArr hs'"
    and repl: "list_all2 (\<lambda>a b. b = a \<or>
                 (b = to_legacy a \<and> get_prop a ''pitchClass'' \<noteq> Inr (Some JNull))) hs hs'"
    and filt: "\<forall>f. rangeFilter = Some f \<longrightarrow> list_all2 (\<lambda>a b. f b = f a) hs hs'"
  shows "summarizeBy ls' rangeFilter = summarizeBy ls rangeFilter"
proof (cases rangeFilter)
  case None
  then show ?thesis
    by (simp add: summarizeBy_def old new summarize_items_legacy [OF repl])
next
  case (Some f)
  with filt have "list_all2 (\<lambda>a b. f b = f a) hs hs'" by simp
  with repl have "list_all2 (\<lambda>a b. (b = a \<or>
        (b = to_legacy a \<and> get_prop a ''pitchClass'' \<noteq> Inr (Some JNull))) \<and> f b = f a) hs hs'"
    by (simp add: list_all2_conv_all_nth)
  from filter_items_legacy [OF this] show ?thesis
  proof
    assume "\<exists>e. filter_items f hs = Inl e \<and> filter_items f hs' = Inl e"
    then show ?thesis by (auto simp: summarizeBy_def old new Some)
  next
    assume "\<exists>xs' ys'. filter_items f hs = Inr xs' \<and> filter_items f hs' = Inr ys' \<and>
      list_all2 (\<lambda>a b. b = a \<or>
        (b = to_legacy a \<and> get_prop a ''pitchClass'' \<noteq> Inr (Some JNull))) xs' ys'"
    then obtain xs' ys' where "filter_items f hs = Inr xs'" "filter_items f hs' = Inr ys'"
      and r: "list_all2 (\<lambda>a b. b = a \<or>
        (b = to_legacy a \<and> get_prop a ''pitchClass'' \<noteq> Inr (Some JNull))) xs' ys'" by blast
    then show ?thesis
      by (simp add: summarizeBy_def old new Some summarize_items_legacy [OF r])
  qed
qed

lemma legacy_example:
  "map to_legacy example_history =
     [JObj [(''correct'', JBool True), (''letter'', JStr ''C'')],
      JObj [(''correct'', JBool False), (''letter'', JStr ''C'')],
      JObj [(''correct'', JBool True), (''letter'', JStr ''E'')]]"
  by code_simp

theorem legacy_read_witness:
  "map to_legacy example_history =
     [JObj [(''correct'', JBool True), (''letter'', JStr ''C'')],
      JObj [(''correct'', JBool False), (''letter'', JStr ''C'')],
      JObj [(''correct'', JBool True), (''letter'', JStr ''E'')]] \<and>
   summarizeBy (saveHistory Map.empty (JArr (map to_legacy example_history))) (Some only_correct) =
   summarizeBy (saveHistory Map.empty (JArr example_history)) (Some only_correct) \<and>
   summarizeBy (saveHistory Map.empty (JArr (map to_legacy example_history))) None =
   summarizeBy (saveHistory Map.empty (JArr example_history)) None"
proof -
  have r: "list_all2 (\<lambda>a b. b = a \<or>
      (b = to_legacy a \<and> get_prop a ''pitchClass'' \<noteq> Inr (Some JNull)))
      example_history (map to_legacy example_history)"
    by (simp add: example_history_def)
  have f: "\<forall>f. Some only_correct = Some f \<longrightarrow>
      list_all2 (\<lambda>a b. f b = f a) example_history (map to_legacy example_history)"
    by (simp add: example_history_def to_legacy_def only_correct_def)
  have n: "\<forall>f. None = Some f \<longrightarrow>
      list_all2 (\<lambda>a b. f b = f a) example_history (map to_legacy example_history)"
    by simp
  from legacy_read [OF loadHistory_saveHistory loadHistory_saveHistory r f]
    legacy_read [OF loadHistory_saveHistory loadHistory_saveHistory r n]
    legacy_example
  show ?thesis by simp
qed

text \<open>
  With the filter that keeps the guesses at C by their field \<open>pitchClass\<close>, the event
  \<open>{pitchClass: "C", correct: true}\<close> is counted and its legacy form is not. Without a
  filter, the event \<open>{pitchClass: null, letter: "C", correct: true}\<close> is counted for C, and
  the event \<open>{letter: null, correct: true}\<close>, which carries the same value in \<open>letter\<close>, for
  no pitch class.
\<close>

theorem legacy_read_differs:
  "to_legacy (JObj [(''pitchClass'', JStr ''C''), (''correct'', JBool True)]) =
     JObj [(''correct'', JBool True), (''letter'', JStr ''C'')] \<and>
   summarizeBy (saveHistory Map.empty
       (JArr [JObj [(''correct'', JBool True), (''letter'', JStr ''C'')]])) (Some only_C) \<noteq>
   summarizeBy (saveHistory Map.empty
       (JArr [JObj [(''pitchClass'', JStr ''C''), (''correct'', JBool True)]])) (Some only_C) \<and>
   to_legacy (JObj [(''pitchClass'', JNull), (''letter'', JStr ''C''), (''correct'', JBool True)]) =
     JObj [(''letter'', JNull), (''correct'', JBool True)] \<and>
   summarizeBy (saveHistory Map.empty
       (JArr [JObj [(''letter'', JNull), (''correct'', JBool True)]])) None \<noteq>
   summarizeBy (saveHistory Map.empty
       (JArr [JObj [(''pitchClass'', JNull), (''letter'', JStr ''C''), (''correct'', JBool True)]])) None"
  by code_simp

end
